theory Spec2Isabelle
  imports Main "HOL-Library.AList"
begin

section \<open>Syntax tree\<close>

text \<open>
  The pass reads a Shift syntax tree through the generic traverser.  Only the
  fields that \<^verbatim>\<open>variableRenamer.ts\<close> reads are kept: the node type, the
  binding identifiers a node carries (each with the identity of the
  \<^verbatim>\<open>BindingIdentifier\<close> object and its name) and the child nodes the
  traverser descends into.  Object identity (\<^verbatim>\<open>node == scope.node\<close>) is a
  natural number stored in every node.
\<close>

datatype VariableType = Var | Let | Const

datatype Binding = BindingIdentifier nat string | BindingPattern

datatype NodeType =
    FunctionDeclaration nat string "Binding list"
  | FunctionExpression "(nat \<times> string) option" "Binding list"
  | ArrowExpression "Binding list"
  | CatchClause "Binding option"
  | ForStatement
  | BlockStatement
  | VariableDeclaration VariableType "Binding list"
  | IdentifierExpression string
  | OtherNode

datatype Node = Node (nid: nat) (ntype: NodeType) (kids: "Node list")

datatype error = DuplicateDeclaration string | ScopeAssociationFailure | NameExhaustion

definition then_do :: "error + 'a \<Rightarrow> ('a \<Rightarrow> error + 'b) \<Rightarrow> error + 'b" where
  "then_do m f = (case m of Inl e \<Rightarrow> Inl e | Inr x \<Rightarrow> f x)"

section \<open>Variables and scopes\<close>

text \<open>
  Modelled from the spec: \<^verbatim>\<open>variable.ts\<close> (class \<^verbatim>\<open>Variable\<close>, constant
  \<^verbatim>\<open>blockScopedTypes\<close>) is not part of the sources at hand.  A variable has a
  name, a declaration kind, its declaration sites and its reference sites; it
  is block scoped iff its kind is let or const (the catch binding is created
  with kind let by the renamer).
\<close>

record Variable =
  name :: string
  kind :: VariableType
  declarations :: "nat list"
  references :: "nat list"

definition newVariable :: "string \<Rightarrow> VariableType \<Rightarrow> Variable" where
  "newVariable n k = \<lparr>name = n, kind = k, declarations = [], references = []\<rparr>"

definition blockScopedTypes :: "VariableType set" where
  "blockScopedTypes = {Let, Const}"

definition isBlockScoped :: "Variable \<Rightarrow> bool" where
  "isBlockScoped v = (kind v \<in> blockScopedTypes)"

text \<open>
  Modelled from the spec: \<^verbatim>\<open>scope.ts\<close> (class \<^verbatim>\<open>Scope\<close>, enum
  \<^verbatim>\<open>ScopeType\<close>) is not part of the sources at hand.  A scope records its kind,
  the identity of the node that created it, its child scopes in creation order
  and its table from names to variables (kept in insertion order, the order in
  which \<^verbatim>\<open>renameVariables\<close> iterates over it).
\<close>

datatype ScopeType = Global | Function | Other

datatype Scope = Scope (node: nat) (stype: ScopeType)
  (variables: "(string \<times> Variable) list") (children: "Scope list")

definition set_variables :: "(string \<times> Variable) list \<Rightarrow> Scope \<Rightarrow> Scope" where
  "set_variables vs s = Scope (node s) (stype s) vs (children s)"

definition set_children :: "Scope list \<Rightarrow> Scope \<Rightarrow> Scope" where
  "set_children cs s = Scope (node s) (stype s) (variables s) cs"

text \<open>
  Modelled from the spec: the table part of \<^verbatim>\<open>Scope.addVariable\<close> (4.1).  If
  the scope already has a variable of that name the conflict rule applies: a
  block-scoped existing or new variable raises DuplicateDeclaration, two
  var-like ones are merged by appending the declaration sites of the new one.
  Otherwise the variable is inserted.
\<close>

definition addToScope :: "Variable \<Rightarrow> Scope \<Rightarrow> error + Scope" where
  "addToScope v s =
     (case map_of (variables s) (name v) of
        Some e \<Rightarrow>
          if isBlockScoped e \<or> isBlockScoped v then Inl (DuplicateDeclaration (name v))
          else Inr (set_variables
                 (AList.update (name v) (e\<lparr>declarations := declarations e @ declarations v\<rparr>)
                    (variables s)) s)
      | None \<Rightarrow> Inr (set_variables (variables s @ [(name v, v)]) s))"

section \<open>The scope cursor\<close>

text \<open>
  Both walks keep a local variable \<^verbatim>\<open>scope\<close> and follow \<^verbatim>\<open>scope.parent\<close>
  links.  The cursor is the current scope \<open>cur\<close> together with the chain
  \<open>ctx\<close> of its ancestors, innermost first.  An ancestor is kept as the scope
  with the children that precede the open child, paired with the children
  that follow it; the open child itself is the next scope down the chain, so
  that a write to a scope is a write to the one copy of it.  Neither walk reads
  the children of an ancestor while a child of it is open.
\<close>

record State =
  cur :: Scope
  ctx :: "(Scope \<times> Scope list) list"
  usedVariableNames :: "string set"
  implicitGlobals :: "Variable list"

definition chain :: "State \<Rightarrow> Scope list" where
  "chain st = cur st # map fst (ctx st)"

definition update_at :: "nat \<Rightarrow> (Scope \<Rightarrow> Scope) \<Rightarrow> State \<Rightarrow> State" where
  "update_at i f st =
     (case i of 0 \<Rightarrow> st\<lparr>cur := f (cur st)\<rparr>
      | Suc j \<Rightarrow> st\<lparr>ctx := (ctx st)[j := (f (fst (ctx st ! j)), snd (ctx st ! j))]\<rparr>)"

text \<open>The tree below a scope and all open ancestors closed again: \<^verbatim>\<open>this.globalScope\<close>.\<close>

fun plug :: "Scope \<Rightarrow> (Scope \<times> Scope list) list \<Rightarrow> Scope" where
  "plug s [] = s"
| "plug s ((p, after) # rest) = plug (set_children (children p @ s # after) p) rest"

definition globalScope :: "State \<Rightarrow> Scope" where
  "globalScope st = plug (cur st) (ctx st)"

text \<open>
  Modelled from the spec: the constructor of \<^verbatim>\<open>Scope\<close> registers the new scope
  as the last child of its parent.
\<close>

definition newScope :: "nat \<Rightarrow> ScopeType \<Rightarrow> State \<Rightarrow> State" where
  "newScope n t st =
     st\<lparr>cur := Scope n t [] [], ctx := (cur st, []) # ctx st\<rparr>"

text \<open>
  Modelled from the spec: \<^verbatim>\<open>Scope.getDeclarationScope\<close>.  For var the chain of
  parents is climbed over Other scopes up to the nearest Function or Global
  scope; for let and const it is the scope itself.  The result is the position
  of that scope in the chain.
\<close>

fun hoist :: "Scope \<Rightarrow> Scope list \<Rightarrow> nat" where
  "hoist s [] = 0"
| "hoist s (p # ps) = (if stype s = Other then Suc (hoist p ps) else 0)"

definition getDeclarationScope :: "VariableType \<Rightarrow> State \<Rightarrow> nat" where
  "getDeclarationScope k st =
     (case k of Var \<Rightarrow> hoist (cur st) (map fst (ctx st)) | _ \<Rightarrow> 0)"

text \<open>
  Modelled from the spec: \<^verbatim>\<open>Scope.addVariable\<close>.  Section 4.2 has every bound
  identifier of a variable declaration declared into
  \<^verbatim>\<open>getDeclarationScope(kind)\<close>, and the hoisting property of section 8 wants a
  var of a nested block found at the nearest Function or Global scope; the
  renamer looks the name up in the declaration scope and, when it is absent,
  reaches that scope only through \<^verbatim>\<open>scope.addVariable\<close> of the current scope.
  So \<^verbatim>\<open>addVariable\<close> places the variable in the declaration scope of its kind,
  seen from the scope it is called on, and the conflict rule of 4.1 is applied
  to the table of that scope.
\<close>

definition addVariable :: "Variable \<Rightarrow> State \<Rightarrow> error + State" where
  "addVariable v st =
     (let d = getDeclarationScope (kind v) st in
      case addToScope v (chain st ! d) of
        Inl e \<Rightarrow> Inl e
      | Inr s \<Rightarrow> Inr (update_at d (\<lambda>_. s) st))"

text \<open>
  Modelled from the spec: \<^verbatim>\<open>Scope.lookupVariable\<close>.  The nearest scope of the
  chain that has the name wins; the result is its position and the variable.
\<close>

fun lookupVariable :: "string \<Rightarrow> Scope list \<Rightarrow> (nat \<times> Variable) option" where
  "lookupVariable n [] = None"
| "lookupVariable n (s # ss) =
     (case map_of (variables s) n of
        Some v \<Rightarrow> Some (0, v)
      | None \<Rightarrow> map_option (\<lambda>(i, v). (Suc i, v)) (lookupVariable n ss))"

section \<open>The renamer\<close>

definition shouldRename :: "string \<Rightarrow> bool" where
  "shouldRename n = (take 3 n = ''_0x'')"

definition addName :: "string \<Rightarrow> State \<Rightarrow> State" where
  "addName n st =
     (if \<not> shouldRename n then st\<lparr>usedVariableNames := insert n (usedVariableNames st)\<rparr>
      else st)"

text \<open>The traverser of shift-traverser: enter the node, visit the children, leave.\<close>

fun traverse :: "(Node \<Rightarrow> 's \<Rightarrow> error + 's) \<Rightarrow> (Node \<Rightarrow> 's \<Rightarrow> 's) \<Rightarrow> Node \<Rightarrow> 's \<Rightarrow> error + 's"
  and traverse_list :: "(Node \<Rightarrow> 's \<Rightarrow> error + 's) \<Rightarrow> (Node \<Rightarrow> 's \<Rightarrow> 's) \<Rightarrow> Node list \<Rightarrow> 's \<Rightarrow> error + 's"
  where
  "traverse enter leave (Node i t ks) st =
     (case enter (Node i t ks) st of
        Inl e \<Rightarrow> Inl e
      | Inr st1 \<Rightarrow>
          (case traverse_list enter leave ks st1 of
             Inl e \<Rightarrow> Inl e
           | Inr st2 \<Rightarrow> Inr (leave (Node i t ks) st2)))"
| "traverse_list enter leave [] st = Inr st"
| "traverse_list enter leave (k # ks) st =
     (case traverse enter leave k st of
        Inl e \<Rightarrow> Inl e
      | Inr st1 \<Rightarrow> traverse_list enter leave ks st1)"

text \<open>The \<^verbatim>\<open>leave\<close> callback shared by both walks.\<close>

definition leave :: "Node \<Rightarrow> State \<Rightarrow> State" where
  "leave nd st =
     (case ctx st of
        [] \<Rightarrow> st
      | (p, after) # rest \<Rightarrow>
          if nid nd = node (cur st)
          then st\<lparr>cur := set_children (children p @ cur st # after) p, ctx := rest\<rparr>
          else st)"

subsection \<open>collectDeclarations\<close>

text \<open>
  \<^verbatim>\<open>new Variable(n, k)\<close>, one declaration site pushed, \<^verbatim>\<open>scope.addVariable\<close>,
  \<^verbatim>\<open>self.addName(n)\<close>: the sequence used for function names, parameters and
  catch bindings.
\<close>

definition declareIn :: "nat \<Rightarrow> string \<Rightarrow> VariableType \<Rightarrow> State \<Rightarrow> error + State" where
  "declareIn i n k st =
     then_do (addVariable ((newVariable n k)\<lparr>declarations := [i]\<rparr>) st)
       (\<lambda>st1. Inr (addName n st1))"

fun declareParams :: "Binding list \<Rightarrow> State \<Rightarrow> error + State" where
  "declareParams [] st = Inr st"
| "declareParams (BindingIdentifier i n # ps) st =
     then_do (declareIn i n Var st) (declareParams ps)"
| "declareParams (BindingPattern # ps) st = declareParams ps st"

text \<open>\<^verbatim>\<open>variable.declarations.push(site)\<close> on the variable stored under a name.\<close>

definition pushDeclaration :: "string \<Rightarrow> nat \<Rightarrow> Scope \<Rightarrow> Scope" where
  "pushDeclaration n i s =
     set_variables
       (AList.map_entry n (\<lambda>v. v\<lparr>declarations := declarations v @ [i]\<rparr>) (variables s)) s"

text \<open>
  The loop over the declarators of a variable declaration: it stops at the
  first declarator whose binding is not a plain identifier.  When the name is
  absent from the declaration scope a new variable goes through
  \<^verbatim>\<open>scope.addVariable\<close>, which stores that object in the declaration scope, and
  the site is pushed onto it afterwards.
\<close>

fun declareDeclarators :: "VariableType \<Rightarrow> Binding list \<Rightarrow> State \<Rightarrow> error + State" where
  "declareDeclarators k [] st = Inr st"
| "declareDeclarators k (BindingPattern # ds) st = Inr st"
| "declareDeclarators k (BindingIdentifier i n # ds) st =
     (let d = getDeclarationScope k st in
      case map_of (variables (chain st ! d)) n of
        Some v \<Rightarrow>
          if isBlockScoped v \<or> k \<in> blockScopedTypes
          then Inl (DuplicateDeclaration (name v))
          else declareDeclarators k ds (update_at d (pushDeclaration n i) st)
      | None \<Rightarrow>
          (case addVariable (newVariable n k) st of
             Inl e \<Rightarrow> Inl e
           | Inr st1 \<Rightarrow>
               declareDeclarators k ds (update_at d (pushDeclaration n i) (addName n st1))))"

definition functionParams :: "NodeType \<Rightarrow> Binding list" where
  "functionParams t =
     (case t of FunctionDeclaration _ _ ps \<Rightarrow> ps | FunctionExpression _ ps \<Rightarrow> ps
      | ArrowExpression ps \<Rightarrow> ps | _ \<Rightarrow> [])"

text \<open>
  The body shared by FunctionDeclaration (which falls through into it),
  FunctionExpression and ArrowExpression.
\<close>

definition enterFunction :: "Node \<Rightarrow> State \<Rightarrow> error + State" where
  "enterFunction nd st =
     then_do
       (case ntype nd of
          FunctionExpression (Some (i, n)) _ \<Rightarrow> declareIn i n Var (newScope (nid nd) Function st)
        | _ \<Rightarrow> Inr (newScope (nid nd) Function st))
       (\<lambda>st1. then_do (declareParams (functionParams (ntype nd)) st1)
          (\<lambda>st2.
             (case ntype nd of
                ArrowExpression _ \<Rightarrow> Inr st2
              | _ \<Rightarrow> addVariable (newVariable ''arguments'' Var) st2)))"

definition enterDeclarations :: "Node \<Rightarrow> State \<Rightarrow> error + State" where
  "enterDeclarations nd st =
     (case ntype nd of
        FunctionDeclaration i n ps \<Rightarrow> then_do (declareIn i n Var st) (enterFunction nd)
      | FunctionExpression f ps \<Rightarrow> enterFunction nd st
      | ArrowExpression ps \<Rightarrow> enterFunction nd st
      | CatchClause b \<Rightarrow>
          then_do
            (case b of
               Some (BindingIdentifier i n) \<Rightarrow> declareIn i n Let st
             | _ \<Rightarrow> Inr st)
            (\<lambda>st1. Inr (newScope (nid nd) Other st1))
      | ForStatement \<Rightarrow> Inr (newScope (nid nd) Other st)
      | BlockStatement \<Rightarrow> Inr (newScope (nid nd) Other st)
      | VariableDeclaration k ds \<Rightarrow> declareDeclarators k ds st
      | _ \<Rightarrow> Inr st)"

text \<open>The state of a fresh renamer: the constructor of \<^verbatim>\<open>VariableRenamer\<close>.\<close>

definition initial :: "Node \<Rightarrow> State" where
  "initial ast =
     \<lparr>cur = Scope (nid ast) Global [] [], ctx = [],
      usedVariableNames = {''if'', ''do'', ''in'', ''var'', ''let'', ''try'', ''for''},
      implicitGlobals = []\<rparr>"

definition collectDeclarations :: "Node \<Rightarrow> State \<Rightarrow> error + State" where
  "collectDeclarations ast st = traverse enterDeclarations leave ast st"

subsection \<open>collectReferences\<close>

definition createsScope :: "NodeType \<Rightarrow> bool" where
  "createsScope t =
     (case t of
        FunctionDeclaration _ _ _ \<Rightarrow> True | FunctionExpression _ _ \<Rightarrow> True
      | ArrowExpression _ \<Rightarrow> True | CatchClause _ \<Rightarrow> True
      | ForStatement \<Rightarrow> True | BlockStatement \<Rightarrow> True | _ \<Rightarrow> False)"

text \<open>\<^verbatim>\<open>children.find(s => s.node == node)\<close>: the position of the first match.\<close>

fun findIndex :: "('a \<Rightarrow> bool) \<Rightarrow> 'a list \<Rightarrow> nat option" where
  "findIndex P [] = None"
| "findIndex P (x # xs) = (if P x then Some 0 else map_option Suc (findIndex P xs))"

definition pushReference :: "string \<Rightarrow> nat \<Rightarrow> Scope \<Rightarrow> Scope" where
  "pushReference n i s =
     set_variables
       (AList.map_entry n (\<lambda>v. v\<lparr>references := references v @ [i]\<rparr>) (variables s)) s"

text \<open>
  An identifier that no scope of the chain declares gets a new variable of
  kind var that holds the reference; the renamer stores that object nowhere,
  so the state keeps it in \<open>implicitGlobals\<close> only to make it observable.
\<close>

definition enterReferences :: "Node \<Rightarrow> State \<Rightarrow> error + State" where
  "enterReferences nd st =
     (if createsScope (ntype nd) then
        (case findIndex (\<lambda>s. node s = nid nd) (children (cur st)) of
           None \<Rightarrow> Inl ScopeAssociationFailure
         | Some i \<Rightarrow>
             Inr (st\<lparr>cur := children (cur st) ! i,
                     ctx := (set_children (take i (children (cur st))) (cur st),
                             drop (Suc i) (children (cur st))) # ctx st\<rparr>))
      else
        (case ntype nd of
           IdentifierExpression n \<Rightarrow>
             (case lookupVariable n (chain st) of
                Some (d, v) \<Rightarrow> Inr (update_at d (pushReference n (nid nd)) st)
              | None \<Rightarrow>
                  Inr ((addName n st)\<lparr>implicitGlobals := implicitGlobals st @
                         [(newVariable n Var)\<lparr>references := [nid nd]\<rparr>]\<rparr>))
         | _ \<Rightarrow> Inr st))"

definition collectReferences :: "Node \<Rightarrow> State \<Rightarrow> error + State" where
  "collectReferences ast st =
     traverse enterReferences leave ast (st\<lparr>cur := globalScope st, ctx := []\<rparr>)"

subsection \<open>generateNames, getVariableName, renameVariables\<close>

definition ALPHABET :: string where
  "ALPHABET = ''abcdefghijklmnopqrstuvwxyz''"

text \<open>The three loops of \<^verbatim>\<open>generateNames\<close>, one per length, and their concatenation.\<close>

definition names1 :: "string set \<Rightarrow> string list" where
  "names1 used = [[c]. c \<leftarrow> ALPHABET, [c] \<notin> used]"

definition names2 :: "string set \<Rightarrow> string list" where
  "names2 used = [[c1, c2]. c1 \<leftarrow> ALPHABET, c2 \<leftarrow> ALPHABET, [c1, c2] \<notin> used]"

definition names3 :: "string set \<Rightarrow> string list" where
  "names3 used =
     [[c1, c2, c3]. c1 \<leftarrow> ALPHABET, c2 \<leftarrow> ALPHABET, c3 \<leftarrow> ALPHABET, [c1, c2, c3] \<notin> used]"

definition generateNames :: "string set \<Rightarrow> string list" where
  "generateNames used = names1 used @ names2 used @ names3 used"

text \<open>
  The renaming phase owns the queue \<^verbatim>\<open>variableNames\<close>; \<open>patches\<close> collects,
  in order, the sites whose \<^verbatim>\<open>name\<close> field was overwritten and the new name.
\<close>

record Renaming =
  variableNames :: "string list"
  patches :: "(nat \<times> string) list"

definition getVariableName :: "Renaming \<Rightarrow> error + (string \<times> Renaming)" where
  "getVariableName r =
     (case variableNames r of
        [] \<Rightarrow> Inl NameExhaustion
      | n # ns \<Rightarrow> Inr (n, r\<lparr>variableNames := ns\<rparr>))"

text \<open>\<open>n\<close> successive calls of \<^verbatim>\<open>getVariableName\<close> and the names they return.\<close>

fun getVariableNames :: "nat \<Rightarrow> Renaming \<Rightarrow> error + (string list \<times> Renaming)" where
  "getVariableNames 0 r = Inr ([], r)"
| "getVariableNames (Suc n) r =
     (case getVariableName r of
        Inl e \<Rightarrow> Inl e
      | Inr (x, r1) \<Rightarrow>
          (case getVariableNames n r1 of
             Inl e \<Rightarrow> Inl e
           | Inr (xs, r2) \<Rightarrow> Inr (x # xs, r2)))"

text \<open>
  The order of issue: shorter names first, and among names of one length the
  order of the dictionary over the order of the letters.
\<close>

fun alphabetical :: "string \<Rightarrow> string \<Rightarrow> bool" where
  "alphabetical [] [] = False"
| "alphabetical [] (d # b) = True"
| "alphabetical (c # a) [] = False"
| "alphabetical (c # a) (d # b) =
     ((of_char c :: nat) < of_char d \<or> (c = d \<and> alphabetical a b))"

definition issuedBefore :: "string \<Rightarrow> string \<Rightarrow> bool" where
  "issuedBefore a b = (length a < length b \<or> (length a = length b \<and> alphabetical a b))"

text \<open>
  Modelled from the spec: \<^verbatim>\<open>Variable.rename\<close>.  The variable takes the new name
  and every declaration and reference site is patched to it.
\<close>

definition rename :: "string \<Rightarrow> Variable \<Rightarrow> Renaming \<Rightarrow> Variable \<times> Renaming" where
  "rename new v r =
     (v\<lparr>name := new\<rparr>,
      r\<lparr>patches := patches r @ map (\<lambda>i. (i, new)) (declarations v @ references v)\<rparr>)"

fun renameEntries ::
  "(string \<times> Variable) list \<Rightarrow> Renaming \<Rightarrow> error + ((string \<times> Variable) list \<times> Renaming)" where
  "renameEntries [] r = Inr ([], r)"
| "renameEntries ((n, v) # vs) r =
     (if shouldRename n then
        (case getVariableName r of
           Inl e \<Rightarrow> Inl e
         | Inr (new, r1) \<Rightarrow>
             (case renameEntries vs (snd (rename new v r1)) of
                Inl e \<Rightarrow> Inl e
              | Inr (vs', r2) \<Rightarrow> Inr ((n, fst (rename new v r1)) # vs', r2)))
      else
        (case renameEntries vs r of
           Inl e \<Rightarrow> Inl e
         | Inr (vs', r2) \<Rightarrow> Inr ((n, v) # vs', r2)))"

fun renameVariables :: "Scope \<Rightarrow> Renaming \<Rightarrow> error + (Scope \<times> Renaming)"
  and renameChildren :: "Scope list \<Rightarrow> Renaming \<Rightarrow> error + (Scope list \<times> Renaming)"
  where
  "renameVariables (Scope nd t vs cs) r =
     (case renameEntries vs r of
        Inl e \<Rightarrow> Inl e
      | Inr (vs', r1) \<Rightarrow>
          (case renameChildren cs r1 of
             Inl e \<Rightarrow> Inl e
           | Inr (cs', r2) \<Rightarrow> Inr (Scope nd t vs' cs', r2)))"
| "renameChildren [] r = Inr ([], r)"
| "renameChildren (c # cs) r =
     (case renameVariables c r of
        Inl e \<Rightarrow> Inl e
      | Inr (c', r1) \<Rightarrow>
          (case renameChildren cs r1 of
             Inl e \<Rightarrow> Inl e
           | Inr (cs', r2) \<Rightarrow> Inr (c' # cs', r2)))"

subsection \<open>The tree after the pass\<close>

text \<open>The name held by site \<open>i\<close> after the patches: the last write wins.\<close>

definition patched :: "(nat \<times> string) list \<Rightarrow> nat \<Rightarrow> string \<Rightarrow> string" where
  "patched ps i n = (case map_of (rev ps) i of Some m \<Rightarrow> m | None \<Rightarrow> n)"

fun patchBinding :: "(nat \<times> string) list \<Rightarrow> Binding \<Rightarrow> Binding" where
  "patchBinding ps (BindingIdentifier i n) = BindingIdentifier i (patched ps i n)"
| "patchBinding ps BindingPattern = BindingPattern"

fun patchType :: "(nat \<times> string) list \<Rightarrow> nat \<Rightarrow> NodeType \<Rightarrow> NodeType" where
  "patchType ps j (FunctionDeclaration i n bs) =
     FunctionDeclaration i (patched ps i n) (map (patchBinding ps) bs)"
| "patchType ps j (FunctionExpression (Some (i, n)) bs) =
     FunctionExpression (Some (i, patched ps i n)) (map (patchBinding ps) bs)"
| "patchType ps j (FunctionExpression None bs) =
     FunctionExpression None (map (patchBinding ps) bs)"
| "patchType ps j (ArrowExpression bs) = ArrowExpression (map (patchBinding ps) bs)"
| "patchType ps j (CatchClause b) = CatchClause (map_option (patchBinding ps) b)"
| "patchType ps j (VariableDeclaration k bs) = VariableDeclaration k (map (patchBinding ps) bs)"
| "patchType ps j (IdentifierExpression n) = IdentifierExpression (patched ps j n)"
| "patchType ps j t = t"

fun patchNode :: "(nat \<times> string) list \<Rightarrow> Node \<Rightarrow> Node" where
  "patchNode ps (Node i t ks) = Node i (patchType ps i t) (map (patchNode ps) ks)"

subsection \<open>execute\<close>

record Outcome =
  tree :: Node
  scopes :: Scope
  unusedNames :: "string list"
  reservedNames :: "string set"

definition execute :: "Node \<Rightarrow> error + Outcome" where
  "execute ast =
     then_do (collectDeclarations ast (initial ast))
       (\<lambda>st1. then_do (collectReferences ast st1)
          (\<lambda>st2. then_do
             (renameVariables (globalScope st2)
                \<lparr>variableNames = generateNames (usedVariableNames st2), patches = []\<rparr>)
             (\<lambda>(g, r). Inr \<lparr>tree = patchNode (patches r) ast, scopes = g,
                               unusedNames = variableNames r,
                               reservedNames = usedVariableNames st2\<rparr>)))"

section \<open>Scope structure\<close>

text \<open>
  The nesting of scopes with the variables forgotten, and the nesting of the
  scope-creating nodes of a tree.  \<open>node_ids\<close> lists the identities of the
  nodes of a tree; distinct nodes of a tree are distinct objects, so the list
  is distinct for every tree the pass can be given.
\<close>

datatype Skeleton = Skeleton (sid: nat) (subs: "Skeleton list")

fun skeleton :: "Scope \<Rightarrow> Skeleton" where
  "skeleton (Scope n t vs cs) = Skeleton n (map skeleton cs)"

fun shape :: "Node \<Rightarrow> Skeleton list" and shapes :: "Node list \<Rightarrow> Skeleton list" where
  "shape (Node i t ks) = (if createsScope t then [Skeleton i (shapes ks)] else shapes ks)"
| "shapes [] = []"
| "shapes (k # ks) = shape k @ shapes ks"

fun node_ids :: "Node \<Rightarrow> nat list" and nodes_ids :: "Node list \<Rightarrow> nat list" where
  "node_ids (Node i t ks) = i # nodes_ids ks"
| "nodes_ids [] = []"
| "nodes_ids (k # ks) = node_ids k @ nodes_ids ks"

text \<open>The outline of a cursor: the skeletons of the current scope and of its ancestors.\<close>

definition outline :: "State \<Rightarrow> Skeleton \<times> (Skeleton \<times> Skeleton list) list" where
  "outline st = (skeleton (cur st), map (\<lambda>f. (skeleton (fst f), map skeleton (snd f))) (ctx st))"

text \<open>The example of the specification: \<^verbatim>\<open>var _0x1 = 1; function _0x2(){ return _0x1; }\<close>.\<close>

definition example :: Node where
  "example =
     Node 0 OtherNode
       [Node 1 (VariableDeclaration Var [BindingIdentifier 2 ''_0x1'']) [],
        Node 3 (FunctionDeclaration 4 ''_0x2'' [])
          [Node 5 OtherNode [Node 6 (IdentifierExpression ''_0x1'') []]]]"

section \<open>The candidate names\<close>

text \<open>All names of length one, two and three over the alphabet, in the order of the loops.\<close>

definition all1 :: "string list" where "all1 = map (\<lambda>c. [c]) ALPHABET"
definition all2 :: "string list" where "all2 = concat (map (\<lambda>c. map ((#) c) all1) ALPHABET)"
definition all3 :: "string list" where "all3 = concat (map (\<lambda>c. map ((#) c) all2) ALPHABET)"

text \<open>The order of the letters.\<close>

definition before :: "char \<Rightarrow> char \<Rightarrow> bool" where
  "before c d = ((of_char c :: nat) < of_char d)"

text \<open>
  \<^verbatim>\<open>var [p] = o, a = 1; var _0x1 = 2;\<close>: the declarator \<^verbatim>\<open>a\<close> follows a
  destructuring pattern.
\<close>

definition clash :: Node where
  "clash =
     Node 0 OtherNode
       [Node 1 (VariableDeclaration Var [BindingPattern, BindingIdentifier 2 ''a'']) [],
        Node 3 (VariableDeclaration Var [BindingIdentifier 4 ''_0x1'']) []]"

section \<open>Example programs and states\<close>

text \<open>
  \<^verbatim>\<open>function f(p) { p; }\<close>, \<^verbatim>\<open>try {} catch (e) { e; }\<close>,
  \<^verbatim>\<open>try {} catch (e) {} let e;\<close>, \<^verbatim>\<open>x; x;\<close>,
  \<^verbatim>\<open>{ var [p] = o, b = 1; }\<close>, \<^verbatim>\<open>(function ([p], b) {})\<close> and
  \<^verbatim>\<open>let x; let x;\<close>.  Bodies of functions and of catch clauses are nodes of
  type FunctionBody and Block, which the pass does not distinguish from other
  nodes.
\<close>

definition function_program :: Node where
  "function_program =
     Node 0 OtherNode
       [Node 1 (FunctionDeclaration 2 ''f'' [BindingIdentifier 3 ''p''])
          [Node 4 OtherNode [Node 5 (IdentifierExpression ''p'') []]]]"

definition catch_program :: Node where
  "catch_program =
     Node 0 OtherNode
       [Node 1 OtherNode
          [Node 2 OtherNode [],
           Node 3 (CatchClause (Some (BindingIdentifier 4 ''e'')))
             [Node 5 OtherNode [Node 6 (IdentifierExpression ''e'') []]]]]"

definition catch_then_let :: Node where
  "catch_then_let =
     Node 0 OtherNode
       [Node 1 OtherNode
          [Node 2 OtherNode [],
           Node 3 (CatchClause (Some (BindingIdentifier 4 ''e''))) [Node 5 OtherNode []]],
        Node 6 (VariableDeclaration Let [BindingIdentifier 7 ''e'']) []]"

definition undeclared_uses :: Node where
  "undeclared_uses =
     Node 0 OtherNode [Node 1 (IdentifierExpression ''x'') [], Node 2 (IdentifierExpression ''x'') []]"

definition skipped_declarator :: Node where
  "skipped_declarator =
     Node 0 OtherNode
       [Node 1 BlockStatement
          [Node 2 (VariableDeclaration Var [BindingPattern, BindingIdentifier 3 ''b'']) []]]"

definition pattern_parameter :: Node where
  "pattern_parameter =
     Node 0 OtherNode
       [Node 1 (FunctionExpression None [BindingPattern, BindingIdentifier 3 ''b''])
          [Node 2 OtherNode []]]"

definition let_twice :: Node where
  "let_twice =
     Node 0 OtherNode
       [Node 1 (VariableDeclaration Let [BindingIdentifier 2 ''x'']) [],
        Node 3 (VariableDeclaration Let [BindingIdentifier 4 ''x'']) []]"

text \<open>
  The cursor after entering \<^verbatim>\<open>function f(p)\<close> from a fresh renamer, the same
  with \<^verbatim>\<open>var x\<close> declared in the function, the same inside a block (node 8)
  of the function before and after two declarations \<^verbatim>\<open>var x\<close> there, a fresh
  renamer after \<^verbatim>\<open>let x\<close>, and a fresh renamer after \<^verbatim>\<open>try {} catch (e) {}\<close>.
\<close>

definition entered_function :: State where
  "entered_function =
     \<lparr>cur = Scope 1 Function
        [(''p'', \<lparr>name = ''p'', kind = Var, declarations = [3], references = []\<rparr>),
         (''arguments'', \<lparr>name = ''arguments'', kind = Var, declarations = [], references = []\<rparr>)]
        [],
      ctx = [(Scope 0 Global
                [(''f'', \<lparr>name = ''f'', kind = Var, declarations = [2], references = []\<rparr>)] [], [])],
      usedVariableNames = {''p'', ''f'', ''if'', ''do'', ''in'', ''var'', ''let'', ''try'', ''for''},
      implicitGlobals = []\<rparr>"

definition declared_in_function :: State where
  "declared_in_function =
     \<lparr>cur = Scope 1 Function
        [(''p'', \<lparr>name = ''p'', kind = Var, declarations = [3], references = []\<rparr>),
         (''arguments'', \<lparr>name = ''arguments'', kind = Var, declarations = [], references = []\<rparr>),
         (''x'', \<lparr>name = ''x'', kind = Var, declarations = [7], references = []\<rparr>)]
        [],
      ctx = [(Scope 0 Global
                [(''f'', \<lparr>name = ''f'', kind = Var, declarations = [2], references = []\<rparr>)] [], [])],
      usedVariableNames =
        {''x'', ''p'', ''f'', ''if'', ''do'', ''in'', ''var'', ''let'', ''try'', ''for''},
      implicitGlobals = []\<rparr>"

definition declared_let :: State where
  "declared_let =
     \<lparr>cur = Scope 0 Global
        [(''x'', \<lparr>name = ''x'', kind = Let, declarations = [2], references = []\<rparr>)] [],
      ctx = [],
      usedVariableNames = {''x'', ''if'', ''do'', ''in'', ''var'', ''let'', ''try'', ''for''},
      implicitGlobals = []\<rparr>"

definition in_block :: State where
  "in_block = newScope 8 Other entered_function"

definition declared_in_block :: State where
  "declared_in_block =
     \<lparr>cur = Scope 8 Other [] [],
      ctx = [(Scope 1 Function
                [(''p'', \<lparr>name = ''p'', kind = Var, declarations = [3], references = []\<rparr>),
                 (''arguments'', \<lparr>name = ''arguments'', kind = Var, declarations = [], references = []\<rparr>),
                 (''x'', \<lparr>name = ''x'', kind = Var, declarations = [9, 10], references = []\<rparr>)]
                [], []),
             (Scope 0 Global
                [(''f'', \<lparr>name = ''f'', kind = Var, declarations = [2], references = []\<rparr>)] [], [])],
      usedVariableNames =
        {''x'', ''p'', ''f'', ''if'', ''do'', ''in'', ''var'', ''let'', ''try'', ''for''},
      implicitGlobals = []\<rparr>"

definition after_catch :: State where
  "after_catch =
     \<lparr>cur = Scope 0 Global
        [(''e'', \<lparr>name = ''e'', kind = Let, declarations = [4], references = []\<rparr>)]
        [Scope 3 Other [] []],
      ctx = [],
      usedVariableNames = {''e'', ''if'', ''do'', ''in'', ''var'', ''let'', ''try'', ''for''},
      implicitGlobals = []\<rparr>"

section \<open>Bindings and tables\<close>

text \<open>
  The plain identifiers of a list of bindings, each with the identity of its
  \<^verbatim>\<open>BindingIdentifier\<close>, and the test the loop over the declarators makes.
\<close>

fun plain :: "Binding list \<Rightarrow> (nat \<times> string) list" where
  "plain [] = []"
| "plain (BindingIdentifier i n # bs) = (i, n) # plain bs"
| "plain (BindingPattern # bs) = plain bs"

fun isIdentifier :: "Binding \<Rightarrow> bool" where
  "isIdentifier (BindingIdentifier i n) = True"
| "isIdentifier BindingPattern = False"

text \<open>A var-kind variable without references.\<close>

definition mkVar :: "string \<Rightarrow> nat list \<Rightarrow> Variable" where
  "mkVar n ds = \<lparr>name = n, kind = Var, declarations = ds, references = []\<rparr>"

text \<open>
  The variable a scope holds under the name of \<open>v\<close> once \<open>v\<close> was added to it
  without an error, \<open>e\<close> being what the scope held under that name before.
\<close>

definition merged :: "Variable \<Rightarrow> Variable option \<Rightarrow> Variable" where
  "merged v e =
     (case e of None \<Rightarrow> v | Some w \<Rightarrow> w\<lparr>declarations := declarations w @ declarations v\<rparr>)"

text \<open>
  A table of var-kind variables without references, each stored under its own
  name, whose declaration sites are parameters of that name.
\<close>

definition varTable :: "(nat \<times> string) list \<Rightarrow> (string \<times> Variable) list \<Rightarrow> bool" where
  "varTable ps vs \<longleftrightarrow>
     distinct (map fst vs) \<and>
     (\<forall>m v. map_of vs m = Some v \<longrightarrow>
        name v = m \<and> kind v = Var \<and> references v = [] \<and>
        set (declarations v) \<subseteq> {i. (i, m) \<in> set ps})"

text \<open>A scope has a variable of name \<open>n\<close> and kind \<open>k\<close> with \<open>i\<close> among its declaration sites.\<close>

definition declares :: "Scope \<Rightarrow> nat \<Rightarrow> string \<Rightarrow> VariableType \<Rightarrow> bool" where
  "declares s i n k \<longleftrightarrow>
     (\<exists>v. map_of (variables s) n = Some v \<and> kind v = k \<and> i \<in> set (declarations v))"

text \<open>
  The nodes the declaration walk enters, in order, each with the state in
  which \<^verbatim>\<open>enter\<close> is called on it; the walk ends at the first error.
\<close>

fun visits :: "Node \<Rightarrow> State \<Rightarrow> (Node \<times> State) list"
  and visits_list :: "Node list \<Rightarrow> State \<Rightarrow> (Node \<times> State) list" where
  "visits (Node i t ks) st =
     (Node i t ks, st) #
     (case enterDeclarations (Node i t ks) st of Inl e \<Rightarrow> [] | Inr st1 \<Rightarrow> visits_list ks st1)"
| "visits_list [] st = []"
| "visits_list (k # ks) st =
     visits k st @
     (case traverse enterDeclarations leave k st of Inl e \<Rightarrow> [] | Inr st1 \<Rightarrow> visits_list ks st1)"

section \<open>What a scope declares\<close>

text \<open>
  A scope tree with the reference sites of every variable forgotten: the
  scopes, the names each declares, and the kind and declaration sites of each
  variable.
\<close>

fun declared :: "Scope \<Rightarrow> Scope" where
  "declared (Scope n t vs cs) =
     Scope n t (map (\<lambda>(k, v). (k, v\<lparr>references := []\<rparr>)) vs) (map declared cs)"

text \<open>The state after both walks over \<^verbatim>\<open>x; x;\<close>.\<close>

definition walked_undeclared :: State where
  "walked_undeclared =
     \<lparr>cur = Scope 0 Global [] [], ctx = [],
      usedVariableNames = {''x'', ''if'', ''do'', ''in'', ''var'', ''let'', ''try'', ''for''},
      implicitGlobals =
        [\<lparr>name = ''x'', kind = Var, declarations = [], references = [1]\<rparr>,
         \<lparr>name = ''x'', kind = Var, declarations = [], references = [2]\<rparr>]\<rparr>"

text \<open>
  The state after a first declarator \<open>n\<close> at site \<open>i\<close> of a declaration of kind
  \<open>k\<close> was declared as a new variable, and after a second one at site \<open>j\<close> was
  merged into it: the variable is in the declaration scope of \<open>k\<close>, seen from
  the current scope.
\<close>

definition declaredOnce :: "VariableType \<Rightarrow> nat \<Rightarrow> string \<Rightarrow> State \<Rightarrow> State" where
  "declaredOnce k i n st =
     addName n (update_at (getDeclarationScope k st)
       (\<lambda>s. set_variables
          (variables s @ [(n, \<lparr>name = n, kind = k, declarations = [i], references = []\<rparr>)]) s) st)"

definition declaredTwice :: "VariableType \<Rightarrow> nat \<Rightarrow> nat \<Rightarrow> string \<Rightarrow> State \<Rightarrow> State" where
  "declaredTwice k i j n st =
     addName n (update_at (getDeclarationScope k st)
       (\<lambda>s. set_variables
          (variables s @ [(n, \<lparr>name = n, kind = k, declarations = [i, j], references = []\<rparr>)]) s) st)"

section \<open>Properties\<close>

lemmas walk_defs = collectDeclarations_def collectReferences_def initial_def enterDeclarations_def
  enterReferences_def enterFunction_def functionParams_def createsScope_def
  leave_def newScope_def getDeclarationScope_def chain_def addVariable_def addToScope_def
  newVariable_def
  addName_def shouldRename_def pushDeclaration_def pushReference_def set_variables_def
  set_children_def declareIn_def then_do_def isBlockScoped_def blockScopedTypes_def
  update_at_def globalScope_def

lemmas rename_defs = execute_def generateNames_def names1_def ALPHABET_def getVariableName_def
  rename_def patched_def

subsection \<open>Positions in the chain\<close>

lemma hoist_le: "hoist s ps \<le> length ps"
  by (induction s ps rule: hoist.induct) simp_all

lemma getDeclarationScope_le: "getDeclarationScope k st \<le> length (ctx st)"
  using hoist_le[of "cur st" "map fst (ctx st)"]
  by (cases k) (simp_all add: getDeclarationScope_def)

lemma chain_update_at:
  "d \<le> length (ctx st) \<Longrightarrow> chain (update_at d f st) ! d = f (chain st ! d)"
  by (cases d) (simp_all add: chain_def update_at_def)

subsection \<open>Declarators after a destructuring pattern\<close>

lemma declareDeclarators_pattern:
  "declareDeclarators k (ds @ BindingPattern # rest) st = declareDeclarators k ds st"
  by (induction k ds st rule: declareDeclarators.induct)
     (simp_all add: Let_def split: option.splits sum.splits)

text \<open>
  Claim C10.  When a declarator of a variable declaration binds a destructuring
  pattern, entering the statement has the effect of entering the statement cut
  off before that declarator, whatever follows it: the later declarators,
  plain identifiers included, change neither a scope nor the set of used
  names, and cannot raise.
\<close>

theorem declarators_stop_at_pattern:
  "enterDeclarations (Node j (VariableDeclaration k (ds @ BindingPattern # rest)) ks) st =
   enterDeclarations (Node j (VariableDeclaration k ds) ks) st"
  by (simp add: enterDeclarations_def declareDeclarators_pattern)

subsection \<open>The two walks see the same nesting\<close>

lemma skeleton_eq: "skeleton s = Skeleton (node s) (map skeleton (children s))"
  by (cases s) simp

lemma skeleton_set_variables [simp]: "skeleton (set_variables vs s) = skeleton s"
  by (cases s) (simp add: set_variables_def)

lemma skeleton_set_children [simp]:
  "skeleton (set_children cs s) = Skeleton (node s) (map skeleton cs)"
  by (cases s) (simp add: set_children_def)

lemma node_set_children [simp]: "node (set_children cs s) = node s"
  by (simp add: set_children_def)

lemma children_set_children [simp]: "children (set_children cs s) = cs"
  by (simp add: set_children_def)

lemma addToScope_skeleton: "addToScope v s = Inr s' \<Longrightarrow> skeleton s' = skeleton s"
  by (auto simp: addToScope_def split: option.splits if_splits)

lemma cur_addName [simp]: "cur (addName n st) = cur st"
  by (simp add: addName_def)

lemma ctx_addName [simp]: "ctx (addName n st) = ctx st"
  by (simp add: addName_def)

lemma outline_addName [simp]: "outline (addName n st) = outline st"
  by (simp add: addName_def outline_def)

lemma update_at_outline_at:
  assumes "skeleton (f (chain st ! d)) = skeleton (chain st ! d)" and "d \<le> length (ctx st)"
  shows "outline (update_at d f st) = outline st"
proof (cases d)
  case 0
  then show ?thesis using assms by (simp add: update_at_def outline_def chain_def)
next
  case (Suc j)
  with assms have j: "j < length (ctx st)"
    and k: "skeleton (f (fst (ctx st ! j))) = skeleton (fst (ctx st ! j))"
    by (simp_all add: chain_def)
  have "map (\<lambda>f. (skeleton (fst f), map skeleton (snd f)))
          ((ctx st)[j := (f (fst (ctx st ! j)), snd (ctx st ! j))]) =
        map (\<lambda>f. (skeleton (fst f), map skeleton (snd f))) (ctx st)"
    using j k by (simp add: map_update list_update_same_conv)
  then show ?thesis using Suc by (simp add: update_at_def outline_def)
qed

lemma update_at_outline:
  assumes "\<And>s. skeleton (f s) = skeleton s"
  shows "outline (update_at d f st) = outline st"
proof (cases d)
  case 0
  then show ?thesis using assms by (simp add: update_at_def outline_def)
next
  case (Suc j)
  show ?thesis
  proof (cases "j < length (ctx st)")
    case True
    have "map (\<lambda>f. (skeleton (fst f), map skeleton (snd f)))
            ((ctx st)[j := (f (fst (ctx st ! j)), snd (ctx st ! j))]) =
          map (\<lambda>f. (skeleton (fst f), map skeleton (snd f))) (ctx st)"
      using True assms by (simp add: map_update list_update_same_conv)
    then show ?thesis using Suc by (simp add: update_at_def outline_def)
  next
    case False
    then have "(ctx st)[j := (f (fst (ctx st ! j)), snd (ctx st ! j))] = ctx st"
      by (intro list_update_beyond) simp
    then show ?thesis using Suc by (simp add: update_at_def outline_def)
  qed
qed

lemma addVariable_outline:
  assumes "addVariable v st = Inr st'"
  shows "outline st' = outline st"
proof -
  let ?d = "getDeclarationScope (kind v) st"
  from assms obtain s where s: "addToScope v (chain st ! ?d) = Inr s"
    and st': "st' = update_at ?d (\<lambda>_. s) st"
    by (auto simp: addVariable_def Let_def split: sum.splits)
  show ?thesis unfolding st'
    by (rule update_at_outline_at) (simp_all add: addToScope_skeleton[OF s] getDeclarationScope_le)
qed

lemma declareIn_outline: "declareIn i n k st = Inr st' \<Longrightarrow> outline st' = outline st"
  by (auto simp: declareIn_def then_do_def split: sum.splits dest: addVariable_outline)

lemma declareParams_outline: "declareParams ps st = Inr st' \<Longrightarrow> outline st' = outline st"
proof (induction ps st arbitrary: st' rule: declareParams.induct)
  case (2 i n ps st)
  then show ?case
    by (auto simp: then_do_def split: sum.splits dest: declareIn_outline)
qed simp_all

lemma pushDeclaration_skeleton [simp]: "skeleton (pushDeclaration n i s) = skeleton s"
  by (simp add: pushDeclaration_def)

lemma pushReference_skeleton [simp]: "skeleton (pushReference n i s) = skeleton s"
  by (simp add: pushReference_def)

lemma declareDeclarators_outline:
  "declareDeclarators k ds st = Inr st' \<Longrightarrow> outline st' = outline st"
proof (induction ds arbitrary: st)
  case Nil
  then show ?case by simp
next
  case (Cons b ds)
  show ?case
  proof (cases b)
    case BindingPattern
    with Cons.prems show ?thesis by simp
  next
    case (BindingIdentifier i n)
    let ?d = "getDeclarationScope k st"
    show ?thesis
    proof (cases "map_of (variables (chain st ! ?d)) n")
      case None
      with Cons.prems BindingIdentifier obtain st1 where
        a: "addVariable (newVariable n k) st = Inr st1"
        and r: "declareDeclarators k ds (update_at ?d (pushDeclaration n i) (addName n st1)) = Inr st'"
        by (auto simp: Let_def split: sum.splits)
      have "outline (update_at ?d (pushDeclaration n i) (addName n st1)) = outline (addName n st1)"
        by (rule update_at_outline) simp
      with Cons.IH[OF r] addVariable_outline[OF a] show ?thesis by simp
    next
      case (Some v)
      with Cons.prems BindingIdentifier have
        r: "declareDeclarators k ds (update_at ?d (pushDeclaration n i) st) = Inr st'"
        by (auto simp: Let_def split: if_splits)
      have "outline (update_at ?d (pushDeclaration n i) st) = outline st"
        by (rule update_at_outline) simp
      with Cons.IH[OF r] show ?thesis by simp
    qed
  qed
qed

lemma cur_newScope [simp]: "cur (newScope i t st) = Scope i t [] []"
  by (simp add: newScope_def)

lemma ctx_newScope [simp]: "ctx (newScope i t st) = (cur st, []) # ctx st"
  by (simp add: newScope_def)

lemma outline_newScope [simp]:
  "outline (newScope i t st) = (Skeleton i [], (skeleton (cur st), []) # snd (outline st))"
  by (simp add: outline_def)

lemma enterFunction_outline:
  assumes "enterFunction nd st = Inr st'"
  shows "outline st' = (Skeleton (nid nd) [], (skeleton (cur st), []) # snd (outline st))"
proof -
  from assms obtain s1 s2 where
    s1: "(case ntype nd of
            FunctionExpression (Some (j, n)) _ \<Rightarrow> declareIn j n Var (newScope (nid nd) Function st)
          | _ \<Rightarrow> Inr (newScope (nid nd) Function st)) = Inr s1"
    and s2: "declareParams (functionParams (ntype nd)) s1 = Inr s2"
    and s3: "(case ntype nd of ArrowExpression _ \<Rightarrow> Inr s2
              | _ \<Rightarrow> addVariable (newVariable ''arguments'' Var) s2) = Inr st'"
    by (auto simp: enterFunction_def then_do_def split: sum.splits)
  from s1 have o1: "outline s1 = outline (newScope (nid nd) Function st)"
    by (auto split: NodeType.splits option.splits dest: declareIn_outline)
  from s2 have o2: "outline s2 = outline s1" by (rule declareParams_outline)
  from s3 have "outline st' = outline s2"
    by (auto split: NodeType.splits dest: addVariable_outline)
  with o1 o2 show ?thesis by simp
qed

lemma enterDeclarations_outline:
  assumes "enterDeclarations (Node i t ks) st = Inr st'"
  shows "outline st' =
     (if createsScope t then (Skeleton i [], (skeleton (cur st), []) # snd (outline st))
      else outline st)"
proof (cases t)
  case (FunctionDeclaration j n ps)
  with assms obtain s1 where "declareIn j n Var st = Inr s1"
    and "enterFunction (Node i t ks) s1 = Inr st'"
    by (auto simp: enterDeclarations_def then_do_def split: sum.splits)
  then show ?thesis using FunctionDeclaration
    by (auto simp: createsScope_def outline_def dest!: declareIn_outline enterFunction_outline)
next
  case (CatchClause b)
  with assms obtain s1 where
    "(case b of Some (BindingIdentifier j n) \<Rightarrow> declareIn j n Let st | _ \<Rightarrow> Inr st) = Inr s1"
    and "st' = newScope i Other s1"
    by (auto simp: enterDeclarations_def then_do_def split: sum.splits)
  then show ?thesis using CatchClause
    by (auto simp: createsScope_def outline_def split: option.splits Binding.splits
        dest!: declareIn_outline)
next
  case (VariableDeclaration k ds)
  with assms show ?thesis
    by (auto simp: enterDeclarations_def createsScope_def dest: declareDeclarators_outline)
qed (use assms in \<open>auto simp: enterDeclarations_def createsScope_def outline_def
      dest: enterFunction_outline\<close>)


lemma sid_skeleton [simp]: "sid (skeleton s) = node s"
  by (cases s) simp

lemma subs_skeleton [simp]: "subs (skeleton s) = map skeleton (children s)"
  by (cases s) simp

lemma fst_outline: "fst (outline st) = skeleton (cur st)"
  by (simp add: outline_def)

lemma snd_outline_Nil: "snd (outline st) = [] \<longleftrightarrow> ctx st = []"
  by (simp add: outline_def)

lemma leave_outline:
  "outline (leave nd st) =
     (case snd (outline st) of
        [] \<Rightarrow> outline st
      | (p, after) # rest \<Rightarrow>
          if nid nd = sid (fst (outline st))
          then (Skeleton (sid p) (subs p @ fst (outline st) # after), rest)
          else outline st)"
  by (cases "ctx st") (auto simp: leave_def outline_def)

lemma declarations_outline:
  "traverse enterDeclarations leave t st = Inr st' \<Longrightarrow> distinct (node_ids t) \<Longrightarrow>
   ctx st = [] \<or> node (cur st) \<notin> set (node_ids t) \<Longrightarrow>
   outline st' =
     (Skeleton (node (cur st)) (map skeleton (children (cur st)) @ shape t), snd (outline st))"
  "traverse_list enterDeclarations leave ks st = Inr st' \<Longrightarrow> distinct (nodes_ids ks) \<Longrightarrow>
   ctx st = [] \<or> node (cur st) \<notin> set (nodes_ids ks) \<Longrightarrow>
   outline st' =
     (Skeleton (node (cur st)) (map skeleton (children (cur st)) @ shapes ks), snd (outline st))"
proof (induction t and ks arbitrary: st st' and st st' rule: node_ids_nodes_ids.induct)
  case (1 i t ks)
  from "1.prems"(1) obtain s1 s2 where
    e: "enterDeclarations (Node i t ks) st = Inr s1"
    and l: "traverse_list enterDeclarations leave ks s1 = Inr s2"
    and st': "st' = leave (Node i t ks) s2"
    by (auto split: sum.splits)
  from "1.prems"(2) have d: "distinct (nodes_ids ks)" and i: "i \<notin> set (nodes_ids ks)"
    by simp_all
  note o1 = enterDeclarations_outline[OF e]
  show ?case
  proof (cases "createsScope t")
    case True
    with o1 have o1': "outline s1 = (Skeleton i [], (skeleton (cur st), []) # snd (outline st))"
      by simp
    then have c1: "skeleton (cur s1) = Skeleton i []" by (simp add: outline_def)
    then have n1: "node (cur s1) = i" and k1: "map skeleton (children (cur s1)) = []"
      by (simp_all add: skeleton_eq)
    from "1.IH"[OF l d] i n1 k1 o1'
    have "outline s2 = (Skeleton i (shapes ks), (skeleton (cur st), []) # snd (outline st))"
      by simp
    then show ?thesis using True st' by (simp add: leave_outline)
  next
    case False
    with o1 have o1': "outline s1 = outline st" by simp
    then have c1: "skeleton (cur s1) = skeleton (cur st)" by (simp add: outline_def)
    then have n1: "node (cur s1) = node (cur st)"
      and k1: "map skeleton (children (cur s1)) = map skeleton (children (cur st))"
      by (simp_all add: skeleton_eq)
    from o1' have x1: "ctx s1 = [] \<longleftrightarrow> ctx st = []"
      by (metis snd_outline_Nil)
    from "1.prems"(3) x1 n1 have "ctx s1 = [] \<or> node (cur s1) \<notin> set (nodes_ids ks)"
      by auto
    from "1.IH"[OF l d this] n1 k1 o1'
    have o2: "outline s2 =
       (Skeleton (node (cur st)) (map skeleton (children (cur st)) @ shapes ks), snd (outline st))"
      by simp
    from "1.prems"(3) have "snd (outline st) = [] \<or> i \<noteq> node (cur st)"
      by (auto simp: snd_outline_Nil)
    then show ?thesis using False st' o2
      by (auto simp: leave_outline split: list.splits)
  qed
next
  case 2
  then show ?case by (simp add: outline_def skeleton_eq)
next
  case (3 k ks)
  from "3.prems"(1) obtain s1 where
    a: "traverse enterDeclarations leave k st = Inr s1"
    and b: "traverse_list enterDeclarations leave ks s1 = Inr st'"
    by (auto split: sum.splits)
  from "3.prems" have o1: "outline s1 =
     (Skeleton (node (cur st)) (map skeleton (children (cur st)) @ shape k), snd (outline st))"
    by (intro "3.IH"(1)[OF a]) auto
  then have c1: "skeleton (cur s1) =
      Skeleton (node (cur st)) (map skeleton (children (cur st)) @ shape k)"
    by (simp add: outline_def)
  then have n1: "node (cur s1) = node (cur st)"
    and k1: "map skeleton (children (cur s1)) = map skeleton (children (cur st)) @ shape k"
    by (simp_all add: skeleton_eq)
  from o1 have x1: "ctx s1 = [] \<longleftrightarrow> ctx st = []"
    by (metis snd_conv snd_outline_Nil)
  from "3.prems" x1 n1 have "outline st' =
     (Skeleton (node (cur s1)) (map skeleton (children (cur s1)) @ shapes ks), snd (outline s1))"
    by (intro "3.IH"(2)[OF b]) auto
  then show ?case using n1 k1 o1 by simp
qed


lemma findIndex_first:
  "map f xs = pre @ a # post \<Longrightarrow> a \<notin> set pre \<Longrightarrow>
   findIndex (\<lambda>x. f x = a) xs = Some (length pre)"
proof (induction pre arbitrary: xs)
  case Nil
  then show ?case by (cases xs) auto
next
  case (Cons p pre)
  then show ?case by (cases xs) auto
qed

lemma shape_ids:
  "sid ` set (shape t) \<subseteq> set (node_ids t)"
  "sid ` set (shapes ks) \<subseteq> set (nodes_ids ks)"
  by (induction t and ks rule: node_ids_nodes_ids.induct) auto

lemma shape_distinct:
  "distinct (node_ids t) \<Longrightarrow> distinct (map sid (shape t))"
  "distinct (nodes_ids ks) \<Longrightarrow> distinct (map sid (shapes ks))"
proof (induction t and ks rule: node_ids_nodes_ids.induct)
  case (3 k ks)
  then show ?case using shape_ids(1)[of k] shape_ids(2)[of ks] by auto
qed auto

lemma enterReferences_scope:
  assumes "createsScope t"
    and "map skeleton (children (cur s)) = pre @ Skeleton i sub # post"
    and "i \<notin> sid ` set pre"
  shows "\<exists>s1. enterReferences (Node i t ks) s = Inr s1 \<and>
           outline s1 = (Skeleton i sub, (Skeleton (node (cur s)) pre, post) # snd (outline s))"
proof -
  let ?cs = "children (cur s)"
  let ?n = "length pre"
  have "map node ?cs = map sid (map skeleton ?cs)" by simp
  also have "\<dots> = map sid (pre @ Skeleton i sub # post)" by (simp only: assms(2))
  finally have m: "map node ?cs = map sid pre @ i # map sid post" by simp
  have f: "findIndex (\<lambda>c. node c = i) ?cs = Some ?n"
    using findIndex_first[OF m] assms(3) by simp
  have "length (map skeleton ?cs) = length (pre @ Skeleton i sub # post)"
    by (simp only: assms(2))
  then have len: "?n < length ?cs" by simp
  have "map skeleton ?cs ! ?n = Skeleton i sub" by (simp add: assms(2))
  with len have a: "skeleton (?cs ! ?n) = Skeleton i sub" by simp
  have "take ?n (map skeleton ?cs) = pre" by (simp add: assms(2))
  then have b: "map skeleton (take ?n ?cs) = pre" by (simp add: take_map)
  have "drop (Suc ?n) (map skeleton ?cs) = post" by (simp add: assms(2))
  then have c: "map skeleton (drop (Suc ?n) ?cs) = post" by (simp add: drop_map)
  show ?thesis using assms(1) f a b c
    by (simp add: enterReferences_def outline_def)
qed


lemma enterReferences_other:
  assumes "\<not> createsScope t"
  shows "\<exists>s1. enterReferences (Node i t ks) s = Inr s1 \<and> outline s1 = outline s"
proof (cases t)
  case (IdentifierExpression n)
  show ?thesis
  proof (cases "lookupVariable n (chain s)")
    case None
    then show ?thesis using IdentifierExpression
      by (simp add: enterReferences_def createsScope_def outline_def)
  next
    case (Some r)
    then show ?thesis using IdentifierExpression
      by (cases r) (simp add: enterReferences_def createsScope_def update_at_outline)
  qed
qed (use assms in \<open>simp_all add: enterReferences_def createsScope_def\<close>)

lemma references_outline:
  "distinct (node_ids t) \<Longrightarrow> ctx s = [] \<or> node (cur s) \<notin> set (node_ids t) \<Longrightarrow>
   map skeleton (children (cur s)) = pre @ shape t @ post \<Longrightarrow>
   distinct (map sid (pre @ shape t @ post)) \<Longrightarrow>
   \<exists>s'. traverse enterReferences leave t s = Inr s' \<and> outline s' = outline s"
  "distinct (nodes_ids ks) \<Longrightarrow> ctx s = [] \<or> node (cur s) \<notin> set (nodes_ids ks) \<Longrightarrow>
   map skeleton (children (cur s)) = pre @ shapes ks @ post \<Longrightarrow>
   distinct (map sid (pre @ shapes ks @ post)) \<Longrightarrow>
   \<exists>s'. traverse_list enterReferences leave ks s = Inr s' \<and> outline s' = outline s"
proof (induction t and ks arbitrary: s pre post and s pre post rule: node_ids_nodes_ids.induct)
  case (1 i t ks)
  from "1.prems"(1) have d: "distinct (nodes_ids ks)" and i: "i \<notin> set (nodes_ids ks)"
    by simp_all
  show ?case
  proof (cases "createsScope t")
    case True
    with "1.prems"(3) have k: "map skeleton (children (cur s)) = pre @ Skeleton i (shapes ks) # post"
      by simp
    from True "1.prems"(4) have "i \<notin> sid ` set pre" by auto
    from enterReferences_scope[OF True k this] obtain s1 where
      e: "enterReferences (Node i t ks) s = Inr s1"
      and o1: "outline s1 =
         (Skeleton i (shapes ks), (Skeleton (node (cur s)) pre, post) # snd (outline s))"
      by blast
    from o1 have c1: "skeleton (cur s1) = Skeleton i (shapes ks)" by (simp add: outline_def)
    then have n1: "node (cur s1) = i" and k1: "map skeleton (children (cur s1)) = shapes ks"
      by (simp_all add: skeleton_eq)
    have "\<exists>s'. traverse_list enterReferences leave ks s1 = Inr s' \<and> outline s' = outline s1"
      using d i n1 k1 shape_distinct(2)[OF d] by (intro "1.IH"[where pre = "[]" and post = "[]"]) auto
    then obtain s2 where l: "traverse_list enterReferences leave ks s1 = Inr s2"
      and o2: "outline s2 = outline s1" by blast
    from o2 o1 have "outline (leave (Node i t ks) s2) =
        (Skeleton (node (cur s)) (pre @ Skeleton i (shapes ks) # post), snd (outline s))"
      by (simp add: leave_outline)
    also have "\<dots> = outline s"
      using k by (simp add: prod_eq_iff fst_outline skeleton_eq[of "cur s"])
    finally have "outline (leave (Node i t ks) s2) = outline s" .
    then show ?thesis using e l by simp
  next
    case False
    from enterReferences_other[OF False] obtain s1 where
      e: "enterReferences (Node i t ks) s = Inr s1" and o1: "outline s1 = outline s"
      by blast
    from o1 have c1: "skeleton (cur s1) = skeleton (cur s)" by (simp add: outline_def)
    then have n1: "node (cur s1) = node (cur s)"
      and k1: "map skeleton (children (cur s1)) = map skeleton (children (cur s))"
      by (simp_all add: skeleton_eq)
    from o1 have x1: "ctx s1 = [] \<longleftrightarrow> ctx s = []"
      by (metis snd_outline_Nil)
    have "\<exists>s'. traverse_list enterReferences leave ks s1 = Inr s' \<and> outline s' = outline s1"
      using d "1.prems" x1 n1 k1 False by (intro "1.IH"[where pre = pre and post = post]) auto
    then obtain s2 where l: "traverse_list enterReferences leave ks s1 = Inr s2"
      and o2: "outline s2 = outline s1" by blast
    from "1.prems"(2) have "snd (outline s) = [] \<or> i \<noteq> node (cur s)"
      by (auto simp: snd_outline_Nil)
    then have "outline (leave (Node i t ks) s2) = outline s"
      using o2 o1 by (auto simp: leave_outline fst_outline split: list.splits)
    then show ?thesis using e l by simp
  qed
next
  case 2
  then show ?case by simp
next
  case (3 k ks)
  have "\<exists>s'. traverse enterReferences leave k s = Inr s' \<and> outline s' = outline s"
    using "3.prems" by (intro "3.IH"(1)[where pre = pre and post = "shapes ks @ post"]) auto
  then obtain s1 where a: "traverse enterReferences leave k s = Inr s1"
    and o1: "outline s1 = outline s" by blast
  from o1 have c1: "skeleton (cur s1) = skeleton (cur s)" by (simp add: outline_def)
  then have n1: "node (cur s1) = node (cur s)"
    and k1: "map skeleton (children (cur s1)) = map skeleton (children (cur s))"
    by (simp_all add: skeleton_eq)
  from o1 have x1: "ctx s1 = [] \<longleftrightarrow> ctx s = []"
    by (metis snd_outline_Nil)
  have "\<exists>s'. traverse_list enterReferences leave ks s1 = Inr s' \<and> outline s' = outline s1"
    using "3.prems" x1 n1 k1 by (intro "3.IH"(2)[where pre = "pre @ shape k" and post = post]) auto
  then show ?case using a o1 by auto
qed

text \<open>
  Claim C8.  On a tree (the identities of its nodes are distinct), when the
  declaration walk of a fresh renamer has completed, the reference walk
  completes: every scope-creating node it enters finds the child scope built
  for it, so ScopeAssociationFailure, the only error that walk can raise, is
  not raised.
\<close>

theorem references_find_scopes:
  assumes "distinct (node_ids ast)"
    and "collectDeclarations ast (initial ast) = Inr st"
  shows "\<exists>st'. collectReferences ast st = Inr st'"
proof -
  have "outline st = (Skeleton (nid ast) (shape ast), [])"
    using declarations_outline(1)[OF assms(2)[unfolded collectDeclarations_def] assms(1)]
    by (simp add: initial_def outline_def)
  then have c: "ctx st = []" and k: "map skeleton (children (cur st)) = shape ast"
    by (simp_all add: outline_def skeleton_eq[of "cur st"])
  let ?s = "st\<lparr>cur := globalScope st, ctx := []\<rparr>"
  have "\<exists>s'. traverse enterReferences leave ast ?s = Inr s' \<and> outline s' = outline ?s"
    using assms(1) c k shape_distinct(1)[OF assms(1)]
    by (intro references_outline(1)[where pre = "[]" and post = "[]"])
       (simp_all add: globalScope_def)
  then show ?thesis by (auto simp: collectReferences_def)
qed


theorem references_find_scopes_witness:
  "distinct (node_ids example) \<and>
   collectDeclarations example (initial example) =
     Inr \<lparr>cur = Scope 0 Global
               [(''_0x1'', \<lparr>name = ''_0x1'', kind = Var, declarations = [2], references = []\<rparr>),
                (''_0x2'', \<lparr>name = ''_0x2'', kind = Var, declarations = [4], references = []\<rparr>)]
               [Scope 3 Function
                  [(''arguments'',
                    \<lparr>name = ''arguments'', kind = Var, declarations = [], references = []\<rparr>)] []],
            ctx = [],
            usedVariableNames = {''if'', ''do'', ''in'', ''var'', ''let'', ''try'', ''for''},
            implicitGlobals = []\<rparr> \<and>
   (\<exists>st'. collectReferences example
      \<lparr>cur = Scope 0 Global
               [(''_0x1'', \<lparr>name = ''_0x1'', kind = Var, declarations = [2], references = []\<rparr>),
                (''_0x2'', \<lparr>name = ''_0x2'', kind = Var, declarations = [4], references = []\<rparr>)]
               [Scope 3 Function
                  [(''arguments'',
                    \<lparr>name = ''arguments'', kind = Var, declarations = [], references = []\<rparr>)] []],
            ctx = [],
            usedVariableNames = {''if'', ''do'', ''in'', ''var'', ''let'', ''try'', ''for''},
            implicitGlobals = []\<rparr> = Inr st')"
proof -
  have d: "distinct (node_ids example)" by (simp add: example_def)
  have c: "collectDeclarations example (initial example) =
     Inr \<lparr>cur = Scope 0 Global
               [(''_0x1'', \<lparr>name = ''_0x1'', kind = Var, declarations = [2], references = []\<rparr>),
                (''_0x2'', \<lparr>name = ''_0x2'', kind = Var, declarations = [4], references = []\<rparr>)]
               [Scope 3 Function
                  [(''arguments'',
                    \<lparr>name = ''arguments'', kind = Var, declarations = [], references = []\<rparr>)] []],
            ctx = [],
            usedVariableNames = {''if'', ''do'', ''in'', ''var'', ''let'', ''try'', ''for''},
            implicitGlobals = []\<rparr>"
    by (simp add: example_def walk_defs)
  from references_find_scopes[OF d c] d c show ?thesis by blast
qed

subsection \<open>The name generator\<close>

lemma concat_map_if:
  "concat (map (\<lambda>x. if f x \<notin> used then [f x] else []) xs) = filter (\<lambda>n. n \<notin> used) (map f xs)"
  by (induction xs) simp_all

lemma concat_map_filter:
  "concat (map (\<lambda>x. filter P (g x)) xs) = filter P (concat (map g xs))"
  by (induction xs) simp_all

lemma names1_filter: "names1 used = filter (\<lambda>n. n \<notin> used) all1"
  by (simp add: names1_def all1_def concat_map_if)

lemma names2_filter: "names2 used = filter (\<lambda>n. n \<notin> used) all2"
  by (simp add: names2_def all2_def all1_def concat_map_if concat_map_filter map_map comp_def)

lemma names3_filter: "names3 used = filter (\<lambda>n. n \<notin> used) all3"
  by (simp add: names3_def all3_def all2_def all1_def concat_map_if concat_map_filter
      map_map comp_def map_concat)

lemma generateNames_filter:
  "generateNames used = filter (\<lambda>n. n \<notin> used) (all1 @ all2 @ all3)"
  by (simp add: generateNames_def names1_filter names2_filter names3_filter)


lemma length_concat_map:
  "length (concat (map (\<lambda>x. map (g x) ys) xs)) = length xs * length ys"
  by (induction xs) simp_all

lemma length_ALPHABET: "length ALPHABET = 26"
  by (simp add: ALPHABET_def)

lemma length_all: "length (all1 @ all2 @ all3) = 18278"
  by (simp add: all1_def all2_def all3_def length_concat_map length_ALPHABET)

lemma length_generateNames: "length (generateNames used) \<le> 18278"
  unfolding generateNames_filter using length_filter_le[of _ "all1 @ all2 @ all3"]
  by (simp only: length_all)

lemma sorted_ALPHABET: "sorted_wrt before ALPHABET"
  by (simp add: ALPHABET_def before_def)

lemma sorted_wrt_concat_map:
  assumes "sorted_wrt R xs"
    and "\<And>x. x \<in> set xs \<Longrightarrow> sorted_wrt Q (f x)"
    and "\<And>x y a b. R x y \<Longrightarrow> a \<in> set (f x) \<Longrightarrow> b \<in> set (f y) \<Longrightarrow> Q a b"
  shows "sorted_wrt Q (concat (map f xs))"
  using assms by (induction xs) (auto simp: sorted_wrt_append)

lemma sorted_prepend:
  assumes "sorted_wrt alphabetical ws"
  shows "sorted_wrt alphabetical (concat (map (\<lambda>c. map ((#) c) ws) ALPHABET))"
proof (rule sorted_wrt_concat_map[OF sorted_ALPHABET])
  fix c show "sorted_wrt alphabetical (map ((#) c) ws)"
    using assms by (simp add: sorted_wrt_map)
next
  fix c d a b
  assume "before c d" "a \<in> set (map ((#) c) ws)" "b \<in> set (map ((#) d) ws)"
  then show "alphabetical a b" by (auto simp: before_def)
qed

lemma sorted_all1: "sorted_wrt alphabetical all1"
proof -
  have "sorted_wrt (\<lambda>c d. alphabetical [c] [d]) ALPHABET"
    using sorted_ALPHABET by (rule sorted_wrt_mono_rel[rotated]) (simp add: before_def)
  then show ?thesis by (simp add: all1_def sorted_wrt_map)
qed

lemma sorted_all2: "sorted_wrt alphabetical all2"
  unfolding all2_def by (rule sorted_prepend[OF sorted_all1])

lemma sorted_all3: "sorted_wrt alphabetical all3"
  unfolding all3_def by (rule sorted_prepend[OF sorted_all2])

lemma length_all1: "n \<in> set all1 \<Longrightarrow> length n = 1"
  by (auto simp: all1_def)

lemma length_all2: "n \<in> set all2 \<Longrightarrow> length n = 2"
  by (auto simp: all2_def dest: length_all1)

lemma length_all3: "n \<in> set all3 \<Longrightarrow> length n = 3"
  by (auto simp: all3_def dest: length_all2)

lemma sorted_same_length:
  "sorted_wrt alphabetical ws \<Longrightarrow> (\<And>n. n \<in> set ws \<Longrightarrow> length n = k) \<Longrightarrow>
   sorted_wrt issuedBefore ws"
  by (erule sorted_wrt_mono_rel[rotated]) (simp add: issuedBefore_def)

lemma sorted_all: "sorted_wrt issuedBefore (all1 @ all2 @ all3)"
  using sorted_same_length[OF sorted_all1 length_all1]
    sorted_same_length[OF sorted_all2 length_all2]
    sorted_same_length[OF sorted_all3 length_all3]
  by (auto simp: sorted_wrt_append issuedBefore_def dest!: length_all1 length_all2 length_all3)

lemma alphabetical_irrefl: "\<not> alphabetical a a"
  by (induction a) simp_all

lemma issuedBefore_irrefl: "\<not> issuedBefore a a"
  by (simp add: issuedBefore_def alphabetical_irrefl)

lemma sorted_wrt_distinct: "sorted_wrt R xs \<Longrightarrow> (\<And>x. \<not> R x x) \<Longrightarrow> distinct xs"
  by (induction xs) auto

lemma sorted_generateNames: "sorted_wrt issuedBefore (generateNames used)"
  unfolding generateNames_filter by (rule sorted_wrt_filter[OF sorted_all])

lemma distinct_generateNames: "distinct (generateNames used)"
  by (rule sorted_wrt_distinct[OF sorted_generateNames issuedBefore_irrefl])

lemma generateNames_unused: "set (generateNames used) \<inter> used = {}"
  by (auto simp: generateNames_filter)

lemma getVariableNames_take:
  "getVariableNames n r =
     (if n \<le> length (variableNames r)
      then Inr (take n (variableNames r), r\<lparr>variableNames := drop n (variableNames r)\<rparr>)
      else Inl NameExhaustion)"
proof (induction n arbitrary: r)
  case 0
  then show ?case by simp
next
  case (Suc n)
  show ?case
  proof (cases "variableNames r")
    case Nil
    then show ?thesis by (simp add: getVariableName_def)
  next
    case (Cons x xs)
    then show ?thesis by (simp add: getVariableName_def Suc)
  qed
qed


text \<open>
  As long as the queue filled by \<^verbatim>\<open>generateNames\<close> holds \<open>n\<close> names, \<open>n\<close>
  requests return \<open>n\<close> pairwise distinct names, none of them in the set of used
  names the queue was filled from, shorter names before longer ones and in
  alphabetical order within a length, and none of them is left in the queue.
  A request beyond the queue raises NameExhaustion.
\<close>

lemma issued_names:
  "(n \<le> length (generateNames used) \<longrightarrow>
      (\<exists>xs r. getVariableNames n \<lparr>variableNames = generateNames used, patches = ps\<rparr> = Inr (xs, r) \<and>
         length xs = n \<and> distinct xs \<and> set xs \<inter> used = {} \<and> sorted_wrt issuedBefore xs \<and>
         set xs \<inter> set (variableNames r) = {})) \<and>
   (length (generateNames used) < n \<longrightarrow>
      getVariableNames n \<lparr>variableNames = generateNames used, patches = ps\<rparr> = Inl NameExhaustion)"
proof -
  let ?g = "generateNames used"
  have "distinct (take n ?g @ drop n ?g)"
    using distinct_generateNames[of used] by simp
  then have d: "distinct (take n ?g)" and i: "set (take n ?g) \<inter> set (drop n ?g) = {}"
    by (simp_all only: distinct_append)
  have u: "set (take n ?g) \<inter> used = {}"
    using generateNames_unused[of used] set_take_subset[of n ?g] by blast
  have s: "sorted_wrt issuedBefore (take n ?g)"
    using sorted_generateNames[of used] by (rule sorted_wrt_take)
  show ?thesis using d i u s by (simp add: getVariableNames_take)
qed


lemma issued_names_example:
  "2 \<le> length (generateNames {''if'', ''do'', ''in'', ''var'', ''let'', ''try'', ''for''}) \<and>
   (\<exists>xs r. getVariableNames 2
        \<lparr>variableNames = generateNames {''if'', ''do'', ''in'', ''var'', ''let'', ''try'', ''for''},
         patches = []\<rparr> = Inr (xs, r) \<and>
      length xs = 2 \<and> distinct xs \<and>
      set xs \<inter> {''if'', ''do'', ''in'', ''var'', ''let'', ''try'', ''for''} = {} \<and>
      sorted_wrt issuedBefore xs \<and> set xs \<inter> set (variableNames r) = {}) \<and>
   length (generateNames {''if'', ''do'', ''in'', ''var'', ''let'', ''try'', ''for''}) < 18279 \<and>
   getVariableNames 18279
     \<lparr>variableNames = generateNames {''if'', ''do'', ''in'', ''var'', ''let'', ''try'', ''for''},
      patches = []\<rparr> = Inl NameExhaustion"
proof -
  let ?S = "{''if'', ''do'', ''in'', ''var'', ''let'', ''try'', ''for''}"
  have "length (names1 ?S) = 26" by (simp add: names1_def ALPHABET_def)
  then have a: "2 \<le> length (generateNames ?S)" by (simp add: generateNames_def)
  have b: "length (generateNames ?S) < 18279"
    using length_generateNames[of ?S] by simp
  from issued_names[of 2 ?S "[]"] issued_names[of 18279 ?S "[]"] a b
  show ?thesis by blast
qed

text \<open>
  Claim C7 fails on the code.  The name \<^verbatim>\<open>a\<close> is present in the program
  \<^verbatim>\<open>var [p] = o, a = 1; var _0x1 = 2;\<close>, but its declarator follows a
  destructuring pattern: the loop over the declarators has stopped before it,
  the name is not among the used names the queue is filled from, and \<^verbatim>\<open>a\<close>
  is the name the pass issues for \<^verbatim>\<open>_0x1\<close>.
\<close>

theorem issued_name_in_program:
  "map_sum id (\<lambda>out. (tree out, reservedNames out)) (execute clash) =
     Inr (Node 0 OtherNode
            [Node 1 (VariableDeclaration Var [BindingPattern, BindingIdentifier 2 ''a'']) [],
             Node 3 (VariableDeclaration Var [BindingIdentifier 4 ''a'']) []],
          {''if'', ''do'', ''in'', ''var'', ''let'', ''try'', ''for''})"
  by (simp add: clash_def walk_defs rename_defs)

subsection \<open>Function declarations\<close>

lemma getDeclarationScope_current:
  "k = Var \<longrightarrow> stype (cur st) \<noteq> Other \<Longrightarrow> getDeclarationScope k st = 0"
  by (cases k; cases "ctx st") (simp_all add: getDeclarationScope_def)

lemma update_at_0_const: "update_at 0 (\<lambda>_. s) st = st\<lparr>cur := s\<rparr>"
  by (simp add: update_at_def)

lemma addVariable_current:
  assumes "kind v = Var \<longrightarrow> stype (cur st) \<noteq> Other"
  shows "addVariable v st = (case addToScope v (cur st) of Inl e \<Rightarrow> Inl e | Inr s \<Rightarrow> Inr (st\<lparr>cur := s\<rparr>))"
  using getDeclarationScope_current[OF assms]
  by (simp add: addVariable_def chain_def update_at_0_const split: sum.splits)

lemma addToScope_header:
  "addToScope v s = Inr s' \<Longrightarrow> node s' = node s \<and> stype s' = stype s \<and> children s' = children s"
  by (auto simp: addToScope_def set_variables_def split: option.splits if_splits)

lemma addToScope_table:
  assumes "addToScope v s = Inr s'"
  shows "map_of (variables s') =
           (map_of (variables s))(name v \<mapsto> merged v (map_of (variables s) (name v))) \<and>
         (distinct (map fst (variables s)) \<longrightarrow> distinct (map fst (variables s'))) \<and>
         fst ` set (variables s') = insert (name v) (fst ` set (variables s)) \<and>
         (map_of (variables s) (name v) = None \<longrightarrow>
            variables s' = variables s @ [(name v, v)])"
proof (cases "map_of (variables s) (name v)")
  case None
  with assms have s': "s' = set_variables (variables s @ [(name v, v)]) s"
    by (simp add: addToScope_def)
  from None have "name v \<notin> fst ` set (variables s)" by (simp add: map_of_eq_None_iff)
  then show ?thesis using None unfolding s'
    by (auto simp: set_variables_def map_add_def merged_def fun_eq_iff split: option.splits)
next
  case (Some e)
  with assms have
    s': "s' = set_variables
      (AList.update (name v) (e\<lparr>declarations := declarations e @ declarations v\<rparr>) (variables s)) s"
    by (auto simp: addToScope_def split: if_splits)
  from Some have "name v \<in> fst ` set (variables s)"
    by (auto dest: map_of_SomeD intro: rev_image_eqI)
  then show ?thesis using Some unfolding s'
    by (auto simp: set_variables_def update_conv' dom_update merged_def distinct_update)
qed

lemma addToScope_kind:
  assumes "addToScope v s = Inr s'" "map_of (variables s) (name v) = Some e"
  shows "kind e = kind v"
proof -
  from assms have "\<not> isBlockScoped e" "\<not> isBlockScoped v"
    by (auto simp: addToScope_def split: if_splits)
  then show ?thesis
    by (cases "kind e"; cases "kind v") (simp_all add: isBlockScoped_def blockScopedTypes_def)
qed

lemma declareIn_current:
  assumes "k = Var \<longrightarrow> stype (cur st) \<noteq> Other"
  shows "declareIn i n k st =
     (case addToScope \<lparr>name = n, kind = k, declarations = [i], references = []\<rparr> (cur st) of
        Inl e \<Rightarrow> Inl e
      | Inr s \<Rightarrow> Inr (addName n (st\<lparr>cur := s\<rparr>)))"
  using assms
  by (simp add: declareIn_def then_do_def addVariable_current newVariable_def split: sum.splits)

lemma addToScope_varTable:
  assumes a: "addToScope \<lparr>name = n, kind = Var, declarations = ds, references = []\<rparr> s = Inr s'"
    and t: "varTable ps (variables s)" and i: "set ds \<subseteq> {i. (i, n) \<in> set ps}"
  shows "varTable ps (variables s')"
proof -
  let ?v = "\<lparr>name = n, kind = Var, declarations = ds, references = []\<rparr>"
  from addToScope_table[OF a]
  have m: "map_of (variables s') = (map_of (variables s))(n \<mapsto> merged ?v (map_of (variables s) n))"
    and d: "distinct (map fst (variables s)) \<longrightarrow> distinct (map fst (variables s'))"
    by simp_all
  have w: "name w = n \<and> kind w = Var \<and> references w = [] \<and>
      set (declarations w) \<subseteq> {i. (i, n) \<in> set ps}"
    if "w = merged ?v (map_of (variables s) n)" for w
  proof (cases "map_of (variables s) n")
    case None
    with that i show ?thesis by (simp add: merged_def)
  next
    case (Some e)
    with t have "name e = n \<and> kind e = Var \<and> references e = [] \<and>
        set (declarations e) \<subseteq> {i. (i, n) \<in> set ps}"
      unfolding varTable_def by blast
    with that Some i show ?thesis by (auto simp: merged_def)
  qed
  have 1: "distinct (map fst (variables s'))" using d t unfolding varTable_def by blast
  have 2: "name v = m \<and> kind v = Var \<and> references v = [] \<and>
        set (declarations v) \<subseteq> {i. (i, m) \<in> set ps}"
    if "map_of (variables s') m = Some v" for m v
    using that m w t unfolding varTable_def by (cases "m = n") auto
  from 1 2 show ?thesis unfolding varTable_def by blast
qed

lemma varTable_mono: "varTable ps vs \<Longrightarrow> set ps \<subseteq> set qs \<Longrightarrow> varTable qs vs"
  unfolding varTable_def by blast

lemma declareParams_table:
  "declareParams bs st = Inr st' \<Longrightarrow> stype (cur st) \<noteq> Other \<Longrightarrow>
   ctx st' = ctx st \<and> node (cur st') = node (cur st) \<and> stype (cur st') = stype (cur st) \<and>
   children (cur st') = children (cur st) \<and>
   fst ` set (variables (cur st')) = fst ` set (variables (cur st)) \<union> snd ` set (plain bs) \<and>
   (\<forall>ps. varTable ps (variables (cur st)) \<and> set (plain bs) \<subseteq> set ps \<longrightarrow>
      varTable ps (variables (cur st'))) \<and>
   (distinct (map snd (plain bs)) \<and> snd ` set (plain bs) \<inter> fst ` set (variables (cur st)) = {} \<longrightarrow>
      variables (cur st') = variables (cur st) @ map (\<lambda>(i, m). (m, mkVar m [i])) (plain bs))"
proof (induction bs arbitrary: st)
  case Nil
  then show ?case by simp
next
  case (Cons b bs)
  show ?case
  proof (cases b)
    case BindingPattern
    with Cons show ?thesis by simp
  next
    case (BindingIdentifier i n)
    with Cons.prems(1) obtain st1 where a: "declareIn i n Var st = Inr st1"
      and r: "declareParams bs st1 = Inr st'"
      by (auto simp: then_do_def split: sum.splits)
    let ?v = "\<lparr>name = n, kind = Var, declarations = [i], references = []\<rparr>"
    from a Cons.prems(2) obtain s where s: "addToScope ?v (cur st) = Inr s"
      and st1: "st1 = addName n (st\<lparr>cur := s\<rparr>)"
      by (auto simp: declareIn_current split: sum.splits)
    note h = addToScope_header[OF s]
    note tb = addToScope_table[OF s]
    from h tb st1
    have 1: "ctx st1 = ctx st" "node (cur st1) = node (cur st)" "stype (cur st1) = stype (cur st)"
      "children (cur st1) = children (cur st)"
      "fst ` set (variables (cur st1)) = insert n (fst ` set (variables (cur st)))"
      by simp_all
    from Cons.prems(2) 1 have o: "stype (cur st1) \<noteq> Other" by simp
    note ih = Cons.IH[OF r o]
    have 2: "varTable ps (variables (cur st'))"
      if "varTable ps (variables (cur st))" "set (plain (b # bs)) \<subseteq> set ps" for ps
    proof -
      from that BindingIdentifier have "set [i] \<subseteq> {j. (j, n) \<in> set ps}" "set (plain bs) \<subseteq> set ps"
        by simp_all
      from addToScope_varTable[OF s that(1) this(1)] this(2) ih st1 show ?thesis by simp
    qed
    have 3: "variables (cur st') = variables (cur st) @ map (\<lambda>(i, m). (m, mkVar m [i])) (plain (b # bs))"
      if "distinct (map snd (plain (b # bs)))"
        "snd ` set (plain (b # bs)) \<inter> fst ` set (variables (cur st)) = {}"
    proof -
      from that BindingIdentifier have n: "n \<notin> fst ` set (variables (cur st))"
        and d: "distinct (map snd (plain bs))" and nn: "n \<notin> snd ` set (plain bs)"
        and x: "snd ` set (plain bs) \<inter> fst ` set (variables (cur st)) = {}"
        by auto
      from n have "map_of (variables (cur st)) n = None" by (simp add: map_of_eq_None_iff)
      with tb st1 have v1: "variables (cur st1) = variables (cur st) @ [(n, ?v)]" by simp
      from x nn 1(5) have "snd ` set (plain bs) \<inter> fst ` set (variables (cur st1)) = {}" by auto
      with ih d have "variables (cur st') =
          variables (cur st1) @ map (\<lambda>(i, m). (m, mkVar m [i])) (plain bs)" by blast
      with v1 BindingIdentifier show ?thesis by (simp add: mkVar_def)
    qed
    from ih 1 2 3 show ?thesis using BindingIdentifier by auto
  qed
qed


lemma addVariable_declared:
  assumes "addVariable v st = Inr st1"
  shows "map_of (variables (chain st1 ! getDeclarationScope (kind v) st)) (name v) =
           Some (merged v (map_of (variables (chain st ! getDeclarationScope (kind v) st)) (name v))) \<and>
         (map_of (variables (chain st ! getDeclarationScope (kind v) st)) (name v) \<noteq> None \<longrightarrow>
            kind (merged v (map_of (variables (chain st ! getDeclarationScope (kind v) st)) (name v))) =
              kind v)"
proof -
  let ?d = "getDeclarationScope (kind v) st"
  from assms obtain s where s: "addToScope v (chain st ! ?d) = Inr s"
    and st1: "st1 = update_at ?d (\<lambda>_. s) st"
    by (auto simp: addVariable_def Let_def split: sum.splits)
  have c: "chain st1 ! ?d = s" unfolding st1 by (rule chain_update_at[OF getDeclarationScope_le])
  have 1: "map_of (variables (chain st1 ! ?d)) (name v) =
      Some (merged v (map_of (variables (chain st ! ?d)) (name v)))"
    unfolding c using addToScope_table[OF s] by simp
  have 2: "kind (merged v (map_of (variables (chain st ! ?d)) (name v))) = kind v"
    if "map_of (variables (chain st ! ?d)) (name v) \<noteq> None"
  proof -
    from that obtain e where e: "map_of (variables (chain st ! ?d)) (name v) = Some e" by blast
    from addToScope_kind[OF s e] e show ?thesis by (simp add: merged_def)
  qed
  from 1 2 show ?thesis by blast
qed

lemma function_scope:
  assumes e: "enterFunction (Node j (FunctionDeclaration i n ps) ks) st1 = Inr st'"
  shows "ctx st' = (cur st1, []) # ctx st1 \<and>
         node (cur st') = j \<and> stype (cur st') = Function \<and> children (cur st') = [] \<and>
         fst ` set (variables (cur st')) = insert ''arguments'' (snd ` set (plain ps)) \<and>
         varTable (plain ps) (variables (cur st')) \<and>
         (distinct (map snd (plain ps)) \<and> ''arguments'' \<notin> snd ` set (plain ps) \<longrightarrow>
            variables (cur st') =
              map (\<lambda>(i, m). (m, mkVar m [i])) (plain ps) @ [(''arguments'', mkVar ''arguments'' [])])"
proof -
  let ?s0 = "newScope j Function st1"
  from e obtain st2 where p: "declareParams ps ?s0 = Inr st2"
    and a: "addVariable (newVariable ''arguments'' Var) st2 = Inr st'"
    by (auto simp: enterFunction_def then_do_def functionParams_def split: sum.splits)
  have t0: "stype (cur ?s0) \<noteq> Other" by simp
  note tb = declareParams_table[OF p t0]
  note tb1 = tb[THEN conjunct1]
  note tb2 = tb[THEN conjunct2, THEN conjunct1]
  note tb3 = tb[THEN conjunct2, THEN conjunct2, THEN conjunct1]
  note tb4 = tb[THEN conjunct2, THEN conjunct2, THEN conjunct2, THEN conjunct1]
  note tb5 = tb[THEN conjunct2, THEN conjunct2, THEN conjunct2, THEN conjunct2, THEN conjunct1]
  note tb6 = tb[THEN conjunct2, THEN conjunct2, THEN conjunct2, THEN conjunct2, THEN conjunct2,
      THEN conjunct1, THEN spec, THEN mp]
  note tb7 = tb[THEN conjunct2, THEN conjunct2, THEN conjunct2, THEN conjunct2, THEN conjunct2,
      THEN conjunct2, THEN mp]
  have v0: "varTable (plain ps) []" by (simp add: varTable_def)
  have v2: "varTable (plain ps) (variables (cur st2))"
    by (rule tb6) (simp add: v0)
  have h2: "ctx st2 = (cur st1, []) # ctx st1" "node (cur st2) = j"
    "stype (cur st2) = Function" "children (cur st2) = []"
    "fst ` set (variables (cur st2)) = snd ` set (plain ps)"
    using tb1 tb2 tb3 tb4 tb5 by simp_all
  let ?a = "newVariable ''arguments'' Var"
  from a h2(3) obtain s where s: "addToScope ?a (cur st2) = Inr s" and st': "st' = st2\<lparr>cur := s\<rparr>"
    by (auto simp: addVariable_current split: sum.splits)
  note h = addToScope_header[OF s]
  note ta = addToScope_table[OF s]
  have k: "fst ` set (variables s) = insert ''arguments'' (snd ` set (plain ps))"
    using ta h2(5) by (simp add: newVariable_def)
  have vt: "varTable (plain ps) (variables s)"
    by (rule addToScope_varTable[OF s[unfolded newVariable_def] v2]) simp
  have ex: "variables s =
      map (\<lambda>(i, m). (m, mkVar m [i])) (plain ps) @ [(''arguments'', mkVar ''arguments'' [])]"
    if "distinct (map snd (plain ps)) \<and> ''arguments'' \<notin> snd ` set (plain ps)"
  proof -
    from that have "variables (cur st2) = variables (cur ?s0) @ map (\<lambda>(i, m). (m, mkVar m [i])) (plain ps)"
      by (intro tb7) simp
    then have 1: "variables (cur st2) = map (\<lambda>(i, m). (m, mkVar m [i])) (plain ps)" by simp
    from that h2(5) have "map_of (variables (cur st2)) ''arguments'' = None"
      by (simp add: map_of_eq_None_iff)
    with ta have "variables s = variables (cur st2) @ [(''arguments'', newVariable ''arguments'' Var)]"
      by (simp add: newVariable_def)
    with 1 show ?thesis by (simp add: newVariable_def mkVar_def)
  qed
  have c: "cur st' = s" "ctx st' = ctx st2" by (simp_all add: st')
  show ?thesis unfolding c
    using h h2(1-4) k vt ex by (intro conjI impI) simp_all
qed

text \<open>
  Claim C4, amended.  Entering a FunctionDeclaration adds the function's own
  name as a var-kind variable, through \<^verbatim>\<open>addVariable\<close> of the scope that is
  current when the node is entered, to the declaration scope for var (the
  current scope itself unless that is a block, for or catch scope), and then
  opens a new Function scope for the declaration node itself: the cursor moves
  to a scope without children whose node is the declaration and whose parent
  is the scope that was current.  The new scope has a var-kind variable
  without references for each name of a plain-identifier parameter and for
  \<^verbatim>\<open>arguments\<close>, and no other; the declaration sites of each are parameters of
  its name, and when the names are pairwise distinct and differ from
  \<^verbatim>\<open>arguments\<close>, each parameter's variable has exactly that parameter as its
  site, in the order of the parameters, with \<^verbatim>\<open>arguments\<close> last and without
  sites.
\<close>

theorem function_declaration_scope:
  assumes "enterDeclarations (Node j (FunctionDeclaration i n ps) ks) st = Inr st'"
  shows "\<exists>st1. addVariable \<lparr>name = n, kind = Var, declarations = [i], references = []\<rparr> st = Inr st1 \<and>
           (\<exists>w. map_of (variables (chain st1 ! getDeclarationScope Var st)) n = Some w \<and>
                kind w = Var \<and> i \<in> set (declarations w)) \<and>
           ctx st' = (cur st1, []) # ctx st1 \<and>
           node (cur st') = j \<and> stype (cur st') = Function \<and> children (cur st') = [] \<and>
           fst ` set (variables (cur st')) = insert ''arguments'' (snd ` set (plain ps)) \<and>
           varTable (plain ps) (variables (cur st')) \<and>
           (distinct (map snd (plain ps)) \<and> ''arguments'' \<notin> snd ` set (plain ps) \<longrightarrow>
              variables (cur st') =
                map (\<lambda>(i, m). (m, mkVar m [i])) (plain ps) @ [(''arguments'', mkVar ''arguments'' [])])"
proof -
  let ?v = "\<lparr>name = n, kind = Var, declarations = [i], references = []\<rparr>"
  from assms obtain s1 where a: "declareIn i n Var st = Inr s1"
    and b: "enterFunction (Node j (FunctionDeclaration i n ps) ks) s1 = Inr st'"
    by (auto simp: enterDeclarations_def then_do_def split: sum.splits)
  from a obtain st1 where s: "addVariable ?v st = Inr st1" and s1: "s1 = addName n st1"
    by (auto simp: declareIn_def then_do_def newVariable_def split: sum.splits)
  from addVariable_declared[OF s]
  have w: "\<exists>w. map_of (variables (chain st1 ! getDeclarationScope Var st)) n = Some w \<and>
                kind w = Var \<and> i \<in> set (declarations w)"
    by (cases "map_of (variables (chain st ! getDeclarationScope Var st)) n")
       (auto simp: merged_def)
  have c: "cur s1 = cur st1" "ctx s1 = ctx st1" by (simp_all add: s1)
  note f = function_scope[OF b, unfolded c]
  show ?thesis
    by (rule exI[of _ st1]) (intro conjI s w f[THEN conjunct1] f[THEN conjunct2])
qed

theorem function_declaration_scope_witness:
  "enterDeclarations (Node 1 (FunctionDeclaration 2 ''f'' [BindingIdentifier 3 ''p'']) [])
     (initial function_program) = Inr entered_function \<and>
   (\<exists>st1. addVariable \<lparr>name = ''f'', kind = Var, declarations = [2], references = []\<rparr>
            (initial function_program) = Inr st1 \<and>
      (\<exists>w. map_of (variables (chain st1 ! getDeclarationScope Var (initial function_program)))
              ''f'' = Some w \<and> kind w = Var \<and> 2 \<in> set (declarations w)) \<and>
      ctx entered_function = (cur st1, []) # ctx st1) \<and>
   node (cur entered_function) = 1 \<and> stype (cur entered_function) = Function \<and>
   children (cur entered_function) = [] \<and>
   fst ` set (variables (cur entered_function)) = {''arguments'', ''p''} \<and>
   distinct (map snd (plain [BindingIdentifier 3 ''p''])) \<and>
   ''arguments'' \<notin> snd ` set (plain [BindingIdentifier 3 ''p'']) \<and>
   variables (cur entered_function) =
     [(''p'', mkVar ''p'' [3]), (''arguments'', mkVar ''arguments'' [])]"
proof -
  have h: "enterDeclarations (Node 1 (FunctionDeclaration 2 ''f'' [BindingIdentifier 3 ''p'']) [])
     (initial function_program) = Inr entered_function"
    by (simp add: entered_function_def function_program_def walk_defs)
  have d: "distinct (map snd (plain [BindingIdentifier 3 ''p'']))"
    "''arguments'' \<notin> snd ` set (plain [BindingIdentifier 3 ''p''])"
    by simp_all
  from function_declaration_scope[OF h] obtain st1 where
    x: "addVariable \<lparr>name = ''f'', kind = Var, declarations = [2], references = []\<rparr>
          (initial function_program) = Inr st1 \<and>
        (\<exists>w. map_of (variables (chain st1 ! getDeclarationScope Var (initial function_program)))
              ''f'' = Some w \<and> kind w = Var \<and> 2 \<in> set (declarations w)) \<and>
        ctx entered_function = (cur st1, []) # ctx st1 \<and>
        node (cur entered_function) = 1 \<and> stype (cur entered_function) = Function \<and>
        children (cur entered_function) = [] \<and>
        fst ` set (variables (cur entered_function)) =
          insert ''arguments'' (snd ` set (plain [BindingIdentifier 3 ''p''])) \<and>
        varTable (plain [BindingIdentifier 3 ''p'']) (variables (cur entered_function)) \<and>
        (distinct (map snd (plain [BindingIdentifier 3 ''p''])) \<and>
         ''arguments'' \<notin> snd ` set (plain [BindingIdentifier 3 ''p'']) \<longrightarrow>
         variables (cur entered_function) =
           map (\<lambda>(i, m). (m, mkVar m [i])) (plain [BindingIdentifier 3 ''p'']) @
           [(''arguments'', mkVar ''arguments'' [])])" ..
  note a = x[THEN conjunct1]
  note b = x[THEN conjunct2, THEN conjunct1]
  note c = x[THEN conjunct2, THEN conjunct2, THEN conjunct1]
  note r1 = x[THEN conjunct2, THEN conjunct2, THEN conjunct2, THEN conjunct1]
  note r2 = x[THEN conjunct2, THEN conjunct2, THEN conjunct2, THEN conjunct2, THEN conjunct1]
  note r3 = x[THEN conjunct2, THEN conjunct2, THEN conjunct2, THEN conjunct2, THEN conjunct2,
      THEN conjunct1]
  note r4 = x[THEN conjunct2, THEN conjunct2, THEN conjunct2, THEN conjunct2, THEN conjunct2,
      THEN conjunct2, THEN conjunct1]
  note v = x[THEN conjunct2, THEN conjunct2, THEN conjunct2, THEN conjunct2, THEN conjunct2,
      THEN conjunct2, THEN conjunct2, THEN conjunct2]
  from a b c have 1: "\<exists>st1. addVariable \<lparr>name = ''f'', kind = Var, declarations = [2], references = []\<rparr>
            (initial function_program) = Inr st1 \<and>
      (\<exists>w. map_of (variables (chain st1 ! getDeclarationScope Var (initial function_program)))
              ''f'' = Some w \<and> kind w = Var \<and> 2 \<in> set (declarations w)) \<and>
      ctx entered_function = (cur st1, []) # ctx st1"
    by (intro exI[of _ st1] conjI)
  from v d have "variables (cur entered_function) =
           map (\<lambda>(i, m). (m, mkVar m [i])) (plain [BindingIdentifier 3 ''p'']) @
           [(''arguments'', mkVar ''arguments'' [])]"
    by (rule mp[OF _ conjI])
  then have 2: "variables (cur entered_function) =
     [(''p'', mkVar ''p'' [3]), (''arguments'', mkVar ''arguments'' [])]"
    by simp
  from r4 have 3: "fst ` set (variables (cur entered_function)) = {''arguments'', ''p''}"
    by simp
  from h 1 r1 r2 r3 3 d 2 show ?thesis by (intro conjI)
qed

text \<open>
  Claim C4 as stated fails: for \<^verbatim>\<open>function f(p) { p; }\<close> the declaration walk
  builds a Function scope whose node is the declaration (node 1); the
  parameter and \<^verbatim>\<open>arguments\<close> live in it.
\<close>

theorem function_declaration_scope_counterexample:
  "collectDeclarations function_program (initial function_program) =
     Inr \<lparr>cur = Scope 0 Global
               [(''f'', \<lparr>name = ''f'', kind = Var, declarations = [2], references = []\<rparr>)]
               [Scope 1 Function
                  [(''p'', \<lparr>name = ''p'', kind = Var, declarations = [3], references = []\<rparr>),
                   (''arguments'',
                    \<lparr>name = ''arguments'', kind = Var, declarations = [], references = []\<rparr>)]
                  []],
            ctx = [],
            usedVariableNames =
              {''p'', ''f'', ''if'', ''do'', ''in'', ''var'', ''let'', ''try'', ''for''},
            implicitGlobals = []\<rparr>"
  by (simp add: function_program_def walk_defs)

subsection \<open>Variable declarations\<close>

lemma update_at_cong:
  "d \<le> length (ctx st) \<Longrightarrow> f (chain st ! d) = g (chain st ! d) \<Longrightarrow> update_at d f st = update_at d g st"
  by (cases d) (simp_all add: update_at_def chain_def)

lemma update_at_twice:
  "d \<le> length (ctx st) \<Longrightarrow> update_at d f (update_at d g st) = update_at d (\<lambda>s. f (g s)) st"
  by (cases d) (simp_all add: update_at_def)

lemma update_at_addName: "update_at d f (addName n st) = addName n (update_at d f st)"
  by (cases d) (simp_all add: update_at_def addName_def)

lemma ctx_length_update_at [simp]: "length (ctx (update_at d f st)) = length (ctx st)"
  by (cases d) (simp_all add: update_at_def)

lemma hoist_stype:
  "stype s = stype s' \<Longrightarrow> map stype ps = map stype ps' \<Longrightarrow> hoist s ps = hoist s' ps'"
proof (induction s ps arbitrary: s' ps' rule: hoist.induct)
  case (1 s)
  then show ?case by simp
next
  case (2 s p ps)
  then obtain p' ps1 where "ps' = p' # ps1" by (cases ps') auto
  with 2 show ?case by auto
qed

lemma getDeclarationScope_update_at:
  assumes "\<And>s. stype (f s) = stype s"
  shows "getDeclarationScope k (update_at d f st) = getDeclarationScope k st"
proof -
  have "stype (cur (update_at d f st)) = stype (cur st)"
    using assms by (cases d) (simp_all add: update_at_def)
  moreover have "map stype (map fst (ctx (update_at d f st))) = map stype (map fst (ctx st))"
  proof (cases d)
    case 0
    then show ?thesis by (simp add: update_at_def)
  next
    case (Suc j)
    show ?thesis
    proof (cases "j < length (ctx st)")
      case True
      then show ?thesis using Suc assms
        by (simp add: update_at_def map_update list_update_same_conv)
    next
      case False
      then show ?thesis using Suc by (simp add: update_at_def list_update_beyond)
    qed
  qed
  ultimately have "hoist (cur (update_at d f st)) (map fst (ctx (update_at d f st))) =
      hoist (cur st) (map fst (ctx st))"
    by (rule hoist_stype)
  then show ?thesis by (cases k) (simp_all add: getDeclarationScope_def)
qed

lemma getDeclarationScope_addName [simp]:
  "getDeclarationScope k (addName n st) = getDeclarationScope k st"
  by (cases k) (simp_all add: getDeclarationScope_def addName_def)

lemma chain_addName [simp]: "chain (addName n st) = chain st"
  by (simp add: chain_def)

lemma stype_set_variables [simp]: "stype (set_variables vs s) = stype s"
  by (simp add: set_variables_def)

lemma variables_set_variables [simp]: "variables (set_variables vs s) = vs"
  by (simp add: set_variables_def)

lemma set_variables_twice [simp]: "set_variables vs (set_variables ws s) = set_variables vs s"
  by (simp add: set_variables_def)

lemma map_entry_append_new:
  "map_of vs n = None \<Longrightarrow> AList.map_entry n f (vs @ [(n, v)]) = vs @ [(n, f v)]"
  by (induction vs) (auto split: if_splits)

lemma declarator_found:
  assumes "map_of (variables (chain st ! getDeclarationScope k st)) n = Some v"
  shows "declareDeclarators k (BindingIdentifier i n # ds) st =
     (if isBlockScoped v \<or> k \<in> blockScopedTypes then Inl (DuplicateDeclaration (name v))
      else declareDeclarators k ds (update_at (getDeclarationScope k st) (pushDeclaration n i) st))"
  using assms by (simp add: Let_def)

lemma declared_once:
  assumes "map_of (variables (chain st ! getDeclarationScope k st)) n = None"
  shows "declareDeclarators k (BindingIdentifier i n # ds) st =
           declareDeclarators k ds (declaredOnce k i n st)"
proof -
  let ?d = "getDeclarationScope k st"
  let ?s = "set_variables (variables (chain st ! ?d) @ [(n, newVariable n k)]) (chain st ! ?d)"
  have d: "?d \<le> length (ctx st)" by (rule getDeclarationScope_le)
  have a: "addVariable (newVariable n k) st = Inr (update_at ?d (\<lambda>_. ?s) st)"
    using assms by (simp add: addVariable_def addToScope_def newVariable_def Let_def)
  have "update_at ?d (pushDeclaration n i) (addName n (update_at ?d (\<lambda>_. ?s) st)) =
      addName n (update_at ?d (\<lambda>s. pushDeclaration n i ?s) st)"
    by (simp add: update_at_addName update_at_twice[OF d])
  also have "update_at ?d (\<lambda>s. pushDeclaration n i ?s) st =
      update_at ?d (\<lambda>s. set_variables
          (variables s @ [(n, \<lparr>name = n, kind = k, declarations = [i], references = []\<rparr>)]) s) st"
    using assms
    by (intro update_at_cong[OF d])
       (simp add: pushDeclaration_def map_entry_append_new newVariable_def)
  finally show ?thesis using assms a by (simp add: declaredOnce_def)
qed

lemma declared_twice:
  assumes "map_of (variables (chain st ! getDeclarationScope k st)) n = None"
  shows "declareDeclarators k (BindingIdentifier j n # ds) (declaredOnce k i n st) =
           (if k = Var then declareDeclarators k ds (declaredTwice k i j n st)
            else Inl (DuplicateDeclaration n))"
proof -
  let ?d = "getDeclarationScope k st"
  let ?f = "\<lambda>s. set_variables
          (variables s @ [(n, \<lparr>name = n, kind = k, declarations = [i], references = []\<rparr>)]) s"
  let ?o = "declaredOnce k i n st"
  have d: "?d \<le> length (ctx st)" by (rule getDeclarationScope_le)
  have g: "getDeclarationScope k ?o = ?d"
    by (simp add: declaredOnce_def getDeclarationScope_update_at)
  have c: "chain ?o ! ?d = ?f (chain st ! ?d)"
    by (simp add: declaredOnce_def chain_update_at[OF d])
  have m: "map_of (variables (chain ?o ! getDeclarationScope k ?o)) n =
      Some \<lparr>name = n, kind = k, declarations = [i], references = []\<rparr>"
    unfolding g c using assms by (simp add: map_add_def)
  have "update_at ?d (pushDeclaration n j) ?o =
      addName n (update_at ?d (\<lambda>s. pushDeclaration n j (?f s)) st)"
    by (simp add: declaredOnce_def update_at_addName update_at_twice[OF d])
  also have "update_at ?d (\<lambda>s. pushDeclaration n j (?f s)) st =
      update_at ?d (\<lambda>s. set_variables
          (variables s @ [(n, \<lparr>name = n, kind = k, declarations = [i, j], references = []\<rparr>)]) s) st"
    using assms
    by (intro update_at_cong[OF d]) (simp add: pushDeclaration_def map_entry_append_new)
  finally have u: "update_at ?d (pushDeclaration n j) ?o = declaredTwice k i j n st"
    by (simp add: declaredTwice_def)
  show ?thesis unfolding declarator_found[OF m] u g
    by (cases k) (simp_all add: isBlockScoped_def blockScopedTypes_def)
qed

lemma variables_pushDeclaration:
  "map_of (variables (pushDeclaration n i s)) =
     (map_of (variables s))(n := map_option (\<lambda>v. v\<lparr>declarations := declarations v @ [i]\<rparr>)
        (map_of (variables s) n))"
  by (cases "map_of (variables s) n")
     (simp_all add: pushDeclaration_def set_variables_def map_of_map_entry)

text \<open>A block, for or catch scope has the declaration scope for var of its parent.\<close>

lemma getDeclarationScope_block:
  "getDeclarationScope Var (newScope b Other st) = Suc (getDeclarationScope Var st) \<and>
   chain (newScope b Other st) ! getDeclarationScope Var (newScope b Other st) =
     chain st ! getDeclarationScope Var st"
  by (simp add: getDeclarationScope_def chain_def)

text \<open>An error raised on entering a node the walk reaches is the result of the walk.\<close>

lemma visits_abort:
  "(nd, s) \<in> set (visits t st) \<Longrightarrow> enterDeclarations nd s = Inl e \<Longrightarrow>
   traverse enterDeclarations leave t st = Inl e"
  "(nd, s) \<in> set (visits_list ks st) \<Longrightarrow> enterDeclarations nd s = Inl e \<Longrightarrow>
   traverse_list enterDeclarations leave ks st = Inl e"
proof (induction t st and ks st rule: visits_visits_list.induct)
  case (1 i t ks st)
  show ?case
  proof (cases "enterDeclarations (Node i t ks) st")
    case (Inl e')
    with "1.prems" show ?thesis by simp
  next
    case (Inr st1)
    show ?thesis
    proof (cases "(nd, s) = (Node i t ks, st)")
      case True
      with "1.prems" Inr show ?thesis by simp
    next
      case False
      with "1.prems" Inr have "(nd, s) \<in> set (visits_list ks st1)" by auto
      from "1.IH"[OF Inr this "1.prems"(2)] Inr show ?thesis by simp
    qed
  qed
next
  case (2 st)
  then show ?case by simp
next
  case (3 k ks st)
  show ?case
  proof (cases "(nd, s) \<in> set (visits k st)")
    case True
    from "3.IH"(1)[OF True "3.prems"(2)] show ?thesis by simp
  next
    case False
    with "3.prems"(1) obtain st1 where t: "traverse enterDeclarations leave k st = Inr st1"
      and v: "(nd, s) \<in> set (visits_list ks st1)"
      by (cases "traverse enterDeclarations leave k st") auto
    from "3.IH"(2)[OF t v "3.prems"(2)] t show ?thesis by simp
  qed
qed

text \<open>
  Claim C6.  When the declaration scope already has a variable of the
  declarator's name: if that variable or the new declaration is block scoped,
  DuplicateDeclaration is raised; if both are var-like nothing is raised, the
  declarator's site is appended to the declaration sites of the existing
  variable, and the loop goes on.  When the declaration scope does not have
  the name and it is declared twice, the first declaration adds a new variable
  to the declaration scope; the second let or const declaration raises
  DuplicateDeclaration, and the second var declaration leaves one variable
  with both sites.  Inside a block, a for statement or a catch clause the
  declaration scope for var is that of the enclosing scope, so the two var
  declarations may stand anywhere in one function.  An error raised on
  entering any node the declaration walk reaches is the result of the walk,
  and an error of the declaration walk is the result of the pass.
\<close>

theorem conflict_rule:
  "(map_of (variables (chain st ! getDeclarationScope k st)) n = Some v \<longrightarrow>
      (isBlockScoped v \<or> k \<in> blockScopedTypes \<longrightarrow>
         declareDeclarators k (BindingIdentifier i n # ds) st =
           Inl (DuplicateDeclaration (name v))) \<and>
      (\<not> isBlockScoped v \<and> k = Var \<longrightarrow>
         declareDeclarators k (BindingIdentifier i n # ds) st =
           declareDeclarators k ds
             (update_at (getDeclarationScope k st) (pushDeclaration n i) st) \<and>
         map_of (variables
             (chain (update_at (getDeclarationScope k st) (pushDeclaration n i) st) !
                getDeclarationScope k st)) n =
           Some (v\<lparr>declarations := declarations v @ [i]\<rparr>))) \<and>
   (map_of (variables (chain st ! getDeclarationScope k st)) n = None \<longrightarrow>
      declareDeclarators k (BindingIdentifier i n # ds) st =
        declareDeclarators k ds (declaredOnce k i n st) \<and>
      declareDeclarators k (BindingIdentifier j n # ds) (declaredOnce k i n st) =
        (if k = Var then declareDeclarators k ds (declaredTwice k i j n st)
         else Inl (DuplicateDeclaration n))) \<and>
   chain (newScope b Other st) ! getDeclarationScope Var (newScope b Other st) =
     chain st ! getDeclarationScope Var st \<and>
   ((nd, s) \<in> set (visits t s0) \<and> enterDeclarations nd s = Inl e \<longrightarrow>
      traverse enterDeclarations leave t s0 = Inl e) \<and>
   (collectDeclarations ast (initial ast) = Inl e \<longrightarrow> execute ast = Inl e)"
proof -
  have a: "(nd, s) \<in> set (visits t s0) \<and> enterDeclarations nd s = Inl e \<longrightarrow>
      traverse enterDeclarations leave t s0 = Inl e"
    using visits_abort(1) by blast
  have b: "collectDeclarations ast (initial ast) = Inl e \<longrightarrow> execute ast = Inl e"
    by (simp add: execute_def then_do_def)
  have c: "map_of (variables
                (chain (update_at (getDeclarationScope k st) (pushDeclaration n i) st) !
                   getDeclarationScope k st)) n =
              Some (v\<lparr>declarations := declarations v @ [i]\<rparr>)"
    if "map_of (variables (chain st ! getDeclarationScope k st)) n = Some v"
    using that by (simp add: chain_update_at[OF getDeclarationScope_le] variables_pushDeclaration)
  have d: "map_of (variables (chain st ! getDeclarationScope k st)) n = None \<longrightarrow>
      declareDeclarators k (BindingIdentifier i n # ds) st =
        declareDeclarators k ds (declaredOnce k i n st) \<and>
      declareDeclarators k (BindingIdentifier j n # ds) (declaredOnce k i n st) =
        (if k = Var then declareDeclarators k ds (declaredTwice k i j n st)
         else Inl (DuplicateDeclaration n))"
    using declared_once declared_twice by blast
  have f: "map_of (variables (chain st ! getDeclarationScope k st)) n = Some v \<longrightarrow>
      (isBlockScoped v \<or> k \<in> blockScopedTypes \<longrightarrow>
         declareDeclarators k (BindingIdentifier i n # ds) st =
           Inl (DuplicateDeclaration (name v))) \<and>
      (\<not> isBlockScoped v \<and> k = Var \<longrightarrow>
         declareDeclarators k (BindingIdentifier i n # ds) st =
           declareDeclarators k ds
             (update_at (getDeclarationScope k st) (pushDeclaration n i) st) \<and>
         map_of (variables
             (chain (update_at (getDeclarationScope k st) (pushDeclaration n i) st) !
                getDeclarationScope k st)) n =
           Some (v\<lparr>declarations := declarations v @ [i]\<rparr>))"
    using c declarator_found[where k = k and st = st and n = n and v = v and i = i and ds = ds]
    by (auto simp: blockScopedTypes_def)
  from f d getDeclarationScope_block[THEN conjunct2] a b show ?thesis by (intro conjI)
qed

theorem conflict_rule_witness:
  "map_of (variables (chain declared_let ! getDeclarationScope Let declared_let)) ''x'' =
     Some \<lparr>name = ''x'', kind = Let, declarations = [2], references = []\<rparr> \<and>
   isBlockScoped \<lparr>name = ''x'', kind = Let, declarations = [2], references = []\<rparr> \<and>
   declareDeclarators Let [BindingIdentifier 4 ''x''] declared_let =
     Inl (DuplicateDeclaration ''x'') \<and>
   map_of (variables (chain declared_in_function ! getDeclarationScope Var declared_in_function))
     ''x'' = Some \<lparr>name = ''x'', kind = Var, declarations = [7], references = []\<rparr> \<and>
   \<not> isBlockScoped \<lparr>name = ''x'', kind = Var, declarations = [7], references = []\<rparr> \<and>
   declareDeclarators Var [BindingIdentifier 9 ''x''] declared_in_function =
     Inr (declared_in_function\<lparr>cur := Scope 1 Function
        [(''p'', \<lparr>name = ''p'', kind = Var, declarations = [3], references = []\<rparr>),
         (''arguments'', \<lparr>name = ''arguments'', kind = Var, declarations = [], references = []\<rparr>),
         (''x'', \<lparr>name = ''x'', kind = Var, declarations = [7, 9], references = []\<rparr>)]
        []\<rparr>) \<and>
   map_of (variables (chain in_block ! getDeclarationScope Var in_block)) ''x'' = None \<and>
   declareDeclarators Var [BindingIdentifier 9 ''x''] in_block =
     Inr (declaredOnce Var 9 ''x'' in_block) \<and>
   declareDeclarators Var [BindingIdentifier 10 ''x''] (declaredOnce Var 9 ''x'' in_block) =
     Inr declared_in_block \<and>
   map_of (variables (chain (initial let_twice) ! getDeclarationScope Let (initial let_twice)))
     ''x'' = None \<and>
   declareDeclarators Let [BindingIdentifier 2 ''x''] (initial let_twice) = Inr declared_let \<and>
   declareDeclarators Let [BindingIdentifier 4 ''x''] (declaredOnce Let 2 ''x'' (initial let_twice)) =
     Inl (DuplicateDeclaration ''x'') \<and>
   (Node 3 (VariableDeclaration Let [BindingIdentifier 4 ''x'']) [], declared_let) \<in>
     set (visits let_twice (initial let_twice)) \<and>
   enterDeclarations (Node 3 (VariableDeclaration Let [BindingIdentifier 4 ''x'']) []) declared_let =
     Inl (DuplicateDeclaration ''x'') \<and>
   traverse enterDeclarations leave let_twice (initial let_twice) =
     Inl (DuplicateDeclaration ''x'') \<and>
   collectDeclarations let_twice (initial let_twice) = Inl (DuplicateDeclaration ''x'') \<and>
   execute let_twice = Inl (DuplicateDeclaration ''x'')"
proof -
  let ?l = "\<lparr>name = ''x'', kind = Let, declarations = [2], references = []\<rparr>"
  let ?v = "\<lparr>name = ''x'', kind = Var, declarations = [7], references = []\<rparr>"
  let ?nd = "Node 3 (VariableDeclaration Let [BindingIdentifier 4 ''x'']) []"
  let ?e = "DuplicateDeclaration ''x''"
  have a: "map_of (variables (chain declared_let ! getDeclarationScope Let declared_let)) ''x'' =
     Some ?l"
    by (simp add: declared_let_def walk_defs)
  have b: "isBlockScoped ?l" by (simp add: isBlockScoped_def blockScopedTypes_def)
  have c: "map_of (variables (chain declared_in_function !
       getDeclarationScope Var declared_in_function)) ''x'' = Some ?v"
    by (simp add: declared_in_function_def walk_defs)
  have d: "\<not> isBlockScoped ?v" by (simp add: isBlockScoped_def blockScopedTypes_def)
  have g: "map_of (variables (chain in_block ! getDeclarationScope Var in_block)) ''x'' = None"
    by (simp add: in_block_def entered_function_def walk_defs)
  have g2: "declaredTwice Var 9 10 ''x'' in_block = declared_in_block"
    by (simp add: declaredTwice_def in_block_def entered_function_def declared_in_block_def walk_defs)
  have h: "map_of (variables (chain (initial let_twice) !
       getDeclarationScope Let (initial let_twice))) ''x'' = None"
    by (simp add: let_twice_def walk_defs)
  have h2: "declaredOnce Let 2 ''x'' (initial let_twice) = declared_let"
    by (simp add: declaredOnce_def declared_let_def let_twice_def walk_defs)
  have m: "(?nd, declared_let) \<in> set (visits let_twice (initial let_twice))"
    by (simp add: let_twice_def declared_let_def walk_defs)
  have e: "enterDeclarations ?nd declared_let = Inl ?e"
    by (simp add: declared_let_def walk_defs)
  have q: "collectDeclarations let_twice (initial let_twice) = Inl ?e"
    by (simp add: let_twice_def walk_defs)
  note l = conflict_rule[where st = declared_let and k = Let and n = "''x''" and v = ?l and i = 4
      and ds = "[]" and nd = ?nd and s = declared_let and e = ?e and t = let_twice
      and ast = let_twice and ?s0.0 = "initial let_twice"]
  note v = conflict_rule[where st = declared_in_function and k = Var and n = "''x''" and v = ?v
      and i = 9 and ds = "[]"]
  note o = conflict_rule[where st = in_block and k = Var and n = "''x''" and i = 9 and j = 10
      and ds = "[]"]
  note p = conflict_rule[where st = "initial let_twice" and k = Let and n = "''x''" and i = 2
      and j = 4 and ds = "[]"]
  from l a b have l1: "declareDeclarators Let [BindingIdentifier 4 ''x''] declared_let = Inl ?e"
    by simp
  from l m e have l2: "traverse enterDeclarations leave let_twice (initial let_twice) = Inl ?e"
    by blast
  from l q have l3: "execute let_twice = Inl ?e" by blast
  from v c d have "declareDeclarators Var [BindingIdentifier 9 ''x''] declared_in_function =
     declareDeclarators Var []
       (update_at (getDeclarationScope Var declared_in_function) (pushDeclaration ''x'' 9)
          declared_in_function)" by simp
  then have v1: "declareDeclarators Var [BindingIdentifier 9 ''x''] declared_in_function =
     Inr (declared_in_function\<lparr>cur := Scope 1 Function
        [(''p'', \<lparr>name = ''p'', kind = Var, declarations = [3], references = []\<rparr>),
         (''arguments'', \<lparr>name = ''arguments'', kind = Var, declarations = [], references = []\<rparr>),
         (''x'', \<lparr>name = ''x'', kind = Var, declarations = [7, 9], references = []\<rparr>)]
        []\<rparr>)"
    by (simp add: declared_in_function_def walk_defs)
  from o g have o1: "declareDeclarators Var [BindingIdentifier 9 ''x''] in_block =
       Inr (declaredOnce Var 9 ''x'' in_block) \<and>
     declareDeclarators Var [BindingIdentifier 10 ''x''] (declaredOnce Var 9 ''x'' in_block) =
       Inr (declaredTwice Var 9 10 ''x'' in_block)"
    by simp
  from p h have p1: "declareDeclarators Let [BindingIdentifier 2 ''x''] (initial let_twice) =
       Inr (declaredOnce Let 2 ''x'' (initial let_twice)) \<and>
     declareDeclarators Let [BindingIdentifier 4 ''x'']
       (declaredOnce Let 2 ''x'' (initial let_twice)) = Inl ?e"
    by simp
  from a b l1 c d v1 g o1 g2 h p1 h2 m e l2 q l3 show ?thesis by simp
qed

lemma chain_update_at_other:
  "j \<noteq> d \<Longrightarrow> chain (update_at d f st) ! j = chain st ! j"
proof (cases d)
  case 0
  assume "j \<noteq> d"
  with 0 show ?thesis by (cases j) (simp_all add: update_at_def chain_def)
next
  case (Suc d')
  assume n: "j \<noteq> d"
  show ?thesis
  proof (cases j)
    case 0
    with Suc show ?thesis by (simp add: update_at_def chain_def)
  next
    case j: (Suc j')
    with n Suc have ne: "d' \<noteq> j'" by simp
    have "map fst ((ctx st)[d' := (f (fst (ctx st ! d')), snd (ctx st ! d'))]) ! j' =
        map fst (ctx st) ! j'"
      using ne by (simp add: map_update)
    with Suc j show ?thesis by (simp add: update_at_def chain_def)
  qed
qed

lemma declares_push:
  "declares s i n k \<Longrightarrow> declares (pushDeclaration m j s) i n k"
  by (auto simp: declares_def variables_pushDeclaration)

lemma declares_append:
  "declares s i n k \<Longrightarrow> declares (set_variables (variables s @ [(m, v)]) s) i n k"
  by (auto simp: declares_def map_add_def)

text \<open>One turn of the loop over the declarators.\<close>

lemma declarator_turn:
  assumes "declareDeclarators k (BindingIdentifier i n # ds) st = Inr st'"
  shows "\<exists>f. declareDeclarators k ds (update_at (getDeclarationScope k st) f
             (if map_of (variables (chain st ! getDeclarationScope k st)) n = None
              then addName n st else st)) = Inr st' \<and>
           (\<forall>s. stype (f s) = stype s) \<and>
           declares (f (chain st ! getDeclarationScope k st)) i n k \<and>
           (\<forall>i' n' k'. declares (chain st ! getDeclarationScope k st) i' n' k' \<longrightarrow>
              declares (f (chain st ! getDeclarationScope k st)) i' n' k')"
proof (cases "map_of (variables (chain st ! getDeclarationScope k st)) n")
  case None
  let ?f = "\<lambda>s. set_variables
          (variables s @ [(n, \<lparr>name = n, kind = k, declarations = [i], references = []\<rparr>)]) s"
  from assms declared_once[OF None]
  have "declareDeclarators k ds (declaredOnce k i n st) = Inr st'" by simp
  then have 1: "declareDeclarators k ds (update_at (getDeclarationScope k st) ?f
             (if map_of (variables (chain st ! getDeclarationScope k st)) n = None
              then addName n st else st)) = Inr st'"
    using None by (simp add: declaredOnce_def update_at_addName)
  have 2: "\<forall>s. stype (?f s) = stype s" by simp
  have 3: "declares (?f (chain st ! getDeclarationScope k st)) i n k"
    using None by (simp add: declares_def map_add_def)
  have 4: "\<forall>i' n' k'. declares (chain st ! getDeclarationScope k st) i' n' k' \<longrightarrow>
              declares (?f (chain st ! getDeclarationScope k st)) i' n' k'"
    using declares_append by blast
  from 1 2 3 4 show ?thesis by (intro exI[of _ ?f] conjI)
next
  case (Some v)
  let ?f = "pushDeclaration n i"
  from assms Some have nb: "\<not> (isBlockScoped v \<or> k \<in> blockScopedTypes)"
    by (auto simp: declarator_found[OF Some] split: if_splits)
  with assms Some have 1: "declareDeclarators k ds (update_at (getDeclarationScope k st) ?f
             (if map_of (variables (chain st ! getDeclarationScope k st)) n = None
              then addName n st else st)) = Inr st'"
    by (simp add: declarator_found[OF Some])
  have 2: "\<forall>s. stype (?f s) = stype s" by (simp add: pushDeclaration_def)
  from nb have kv: "kind v = k"
    by (cases k; cases "kind v") (simp_all add: isBlockScoped_def blockScopedTypes_def)
  have 3: "declares (?f (chain st ! getDeclarationScope k st)) i n k"
    using Some kv by (simp add: declares_def variables_pushDeclaration)
  have 4: "\<forall>i' n' k'. declares (chain st ! getDeclarationScope k st) i' n' k' \<longrightarrow>
              declares (?f (chain st ! getDeclarationScope k st)) i' n' k'"
    using declares_push by blast
  from 1 2 3 4 show ?thesis by (intro exI[of _ ?f] conjI)
qed

text \<open>
  The declarators in front of the first pattern, when the loop over them
  returns: each is declared, with the kind of the statement, in the scope that
  \<^verbatim>\<open>getDeclarationScope\<close> gave when the statement was entered; that scope keeps
  what it declared, and no other scope of the chain is changed.
\<close>

lemma declarators_hoisted:
  assumes "declareDeclarators k ds st = Inr st'"
  shows "length (ctx st') = length (ctx st) \<and>
         getDeclarationScope k st' = getDeclarationScope k st \<and>
         (\<forall>j. j \<noteq> getDeclarationScope k st \<longrightarrow> chain st' ! j = chain st ! j) \<and>
         (\<forall>i n k'. declares (chain st ! getDeclarationScope k st) i n k' \<longrightarrow>
            declares (chain st' ! getDeclarationScope k st) i n k') \<and>
         (\<forall>(i, n) \<in> set (plain (takeWhile isIdentifier ds)).
            declares (chain st' ! getDeclarationScope k st) i n k)"
  using assms
proof (induction ds arbitrary: st)
  case Nil
  then show ?case by simp
next
  case (Cons b ds)
  show ?case
  proof (cases b)
    case BindingPattern
    with Cons.prems show ?thesis by simp
  next
    case (BindingIdentifier i n)
    let ?d = "getDeclarationScope k st"
    let ?s0 = "if map_of (variables (chain st ! ?d)) n = None then addName n st else st"
    from declarator_turn[OF Cons.prems[unfolded BindingIdentifier]] obtain f where
      r: "declareDeclarators k ds (update_at ?d f ?s0) = Inr st'"
      and t: "\<forall>s. stype (f s) = stype s"
      and h: "declares (f (chain st ! ?d)) i n k"
      and g: "\<forall>i' n' k'. declares (chain st ! ?d) i' n' k' \<longrightarrow> declares (f (chain st ! ?d)) i' n' k'"
      by blast
    let ?s1 = "update_at ?d f ?s0"
    have d: "?d \<le> length (ctx ?s0)" using getDeclarationScope_le[of k st] by simp
    have c0: "chain ?s0 = chain st" by simp
    have l1: "length (ctx ?s1) = length (ctx st)" by simp
    have g1: "getDeclarationScope k ?s1 = ?d"
      using t by (simp add: getDeclarationScope_update_at)
    have o1: "chain ?s1 ! j = chain st ! j" if "j \<noteq> ?d" for j
      using chain_update_at_other[OF that, of f ?s0] c0 by simp
    have c1: "chain ?s1 ! ?d = f (chain st ! ?d)"
      using chain_update_at[OF d, of f] c0 by simp
    note ih = Cons.IH[OF r]
    have a1: "length (ctx st') = length (ctx st)"
      using ih[THEN conjunct1] l1 by simp
    have a2: "getDeclarationScope k st' = ?d"
      using ih[THEN conjunct2, THEN conjunct1] g1 by simp
    have a3: "chain st' ! j = chain st ! j" if "j \<noteq> ?d" for j
      using ih[THEN conjunct2, THEN conjunct2, THEN conjunct1] g1 o1[OF that] that by simp
    have k1: "declares (chain st' ! ?d) i' n' k'" if "declares (f (chain st ! ?d)) i' n' k'"
      for i' n' k'
      using ih[THEN conjunct2, THEN conjunct2, THEN conjunct2, THEN conjunct1] g1 c1 that
      by simp
    have a4: "declares (chain st' ! ?d) i' n' k'" if "declares (chain st ! ?d) i' n' k'"
      for i' n' k'
      using k1 g that by blast
    have a5: "declares (chain st' ! ?d) i' n' k"
      if "(i', n') \<in> set (plain (takeWhile isIdentifier ds))" for i' n'
      using ih[THEN conjunct2, THEN conjunct2, THEN conjunct2, THEN conjunct2] g1 that
      by auto
    have a6: "declares (chain st' ! ?d) i n k" using k1 h by blast
    have a7: "\<forall>(i', n') \<in> set (plain (takeWhile isIdentifier (b # ds))).
        declares (chain st' ! ?d) i' n' k"
      using a5 a6 BindingIdentifier by auto
    from a1 a2 a3 a4 a7 show ?thesis by (intro conjI allI impI) assumption+
  qed
qed

text \<open>
  Claim C2 fails on the code.  In \<^verbatim>\<open>{ var [p] = o, b = 1; }\<close> the declarator
  \<^verbatim>\<open>b\<close> binds a plain identifier, but it follows a destructuring pattern, at
  which the loop over the declarators has stopped: after the walk neither
  the Global scope, which is the declaration scope, nor the scope of the block
  has a variable, and \<^verbatim>\<open>b\<close> is not among the used names.  The loop over the
  parameters of a function passes over a pattern and goes on: in
  \<^verbatim>\<open>(function ([p], b) {})\<close> the parameter \<^verbatim>\<open>b\<close> is declared.
\<close>

theorem declarator_after_pattern_undeclared:
  "collectDeclarations skipped_declarator (initial skipped_declarator) =
     Inr \<lparr>cur = Scope 0 Global [] [Scope 1 Other [] []], ctx = [],
          usedVariableNames = {''if'', ''do'', ''in'', ''var'', ''let'', ''try'', ''for''},
          implicitGlobals = []\<rparr> \<and>
   collectDeclarations pattern_parameter (initial pattern_parameter) =
     Inr \<lparr>cur = Scope 0 Global []
            [Scope 1 Function
               [(''b'', \<lparr>name = ''b'', kind = Var, declarations = [3], references = []\<rparr>),
                (''arguments'',
                 \<lparr>name = ''arguments'', kind = Var, declarations = [], references = []\<rparr>)]
               []],
          ctx = [],
          usedVariableNames = {''b'', ''if'', ''do'', ''in'', ''var'', ''let'', ''try'', ''for''},
          implicitGlobals = []\<rparr>"
  by (simp add: skipped_declarator_def pattern_parameter_def walk_defs)

subsection \<open>Catch clauses\<close>

text \<open>
  Claim C5 fails on the code.  For \<^verbatim>\<open>try {} catch (e) { e; }\<close> the catch
  binding is added before the scope of the clause is created: it ends in the
  Global scope, and the scope of the catch clause (node 3) declares nothing.
\<close>

theorem catch_binding_in_enclosing_scope:
  "collectDeclarations catch_program (initial catch_program) =
     Inr \<lparr>cur = Scope 0 Global
               [(''e'', \<lparr>name = ''e'', kind = Let, declarations = [4], references = []\<rparr>)]
               [Scope 3 Other [] []],
            ctx = [],
            usedVariableNames = {''e'', ''if'', ''do'', ''in'', ''var'', ''let'', ''try'', ''for''},
            implicitGlobals = []\<rparr>"
  by (simp add: catch_program_def walk_defs)

text \<open>
  Claim C1 fails on the code.  \<^verbatim>\<open>try {} catch (e) {} let e;\<close> redeclares no
  block-scoped binding, the catch parameter being local to the clause.  The
  walk over the try statement leaves the parameter in the Global scope, as a
  let-kind variable; entering \<^verbatim>\<open>let e\<close> then finds the name in its declaration
  scope and raises DuplicateDeclaration, which is the result of the pass.
\<close>

theorem catch_binding_conflicts:
  "traverse enterDeclarations leave
     (Node 1 OtherNode
        [Node 2 OtherNode [],
         Node 3 (CatchClause (Some (BindingIdentifier 4 ''e''))) [Node 5 OtherNode []]])
     (initial catch_then_let) = Inr after_catch \<and>
   enterDeclarations (Node 6 (VariableDeclaration Let [BindingIdentifier 7 ''e'']) []) after_catch =
     Inl (DuplicateDeclaration ''e'') \<and>
   execute catch_then_let = Inl (DuplicateDeclaration ''e'')"
  by (simp add: catch_then_let_def after_catch_def execute_def walk_defs)

subsection \<open>Implicit globals\<close>

lemma declared_eq:
  "declared s = Scope (node s) (stype s) (map (\<lambda>(k, v). (k, v\<lparr>references := []\<rparr>)) (variables s))
     (map declared (children s))"
  by (cases s) simp

lemma declared_set_children [simp]:
  "declared (set_children cs s) =
     Scope (node s) (stype s) (map (\<lambda>(k, v). (k, v\<lparr>references := []\<rparr>)) (variables s))
       (map declared cs)"
  by (cases s) (simp add: set_children_def)

lemma declared_plug:
  "declared s = declared s' \<Longrightarrow>
   map (\<lambda>f. (declared (fst f), map declared (snd f))) c =
   map (\<lambda>f. (declared (fst f), map declared (snd f))) c' \<Longrightarrow>
   declared (plug s c) = declared (plug s' c')"
proof (induction c arbitrary: s s' c')
  case Nil
  then show ?case by simp
next
  case (Cons f c)
  from Cons.prems(2) obtain f' c'' where c': "c' = f' # c''" by (cases c') auto
  obtain p a where f: "f = (p, a)" by (cases f)
  obtain p' a' where f': "f' = (p', a')" by (cases f')
  from Cons.prems(2) c' f f' have pp: "declared p = declared p'" and aa: "map declared a = map declared a'"
    and cc: "map (\<lambda>f. (declared (fst f), map declared (snd f))) c =
      map (\<lambda>f. (declared (fst f), map declared (snd f))) c''"
    by simp_all
  have "declared (set_children (children p @ s # a) p) =
        declared (set_children (children p' @ s' # a') p')"
    using pp aa Cons.prems(1) by (simp add: declared_eq[of p] declared_eq[of p'])
  from Cons.IH[OF this cc] show ?case by (simp add: c' f f')
qed

lemma map_entry_references:
  "map (\<lambda>(k, v). (k, v\<lparr>references := []\<rparr>))
     (AList.map_entry n (\<lambda>v. v\<lparr>references := references v @ [i]\<rparr>) vs) =
   map (\<lambda>(k, v). (k, v\<lparr>references := []\<rparr>)) vs"
  by (induction vs) auto

lemma declared_pushReference [simp]: "declared (pushReference n i s) = declared s"
  by (cases s) (simp add: pushReference_def set_variables_def map_entry_references)

lemma update_at_declared:
  assumes "\<And>s. declared (f s) = declared s"
  shows "declared (globalScope (update_at d f st)) = declared (globalScope st)"
proof (cases d)
  case 0
  then show ?thesis using assms
    by (auto simp: update_at_def globalScope_def intro: declared_plug)
next
  case (Suc j)
  show ?thesis
  proof (cases "j < length (ctx st)")
    case True
    have "map (\<lambda>f. (declared (fst f), map declared (snd f)))
            ((ctx st)[j := (f (fst (ctx st ! j)), snd (ctx st ! j))]) =
          map (\<lambda>f. (declared (fst f), map declared (snd f))) (ctx st)"
      using True assms by (simp add: map_update list_update_same_conv)
    then show ?thesis using Suc
      by (auto simp: update_at_def globalScope_def intro: declared_plug)
  next
    case False
    then have "(ctx st)[j := (f (fst (ctx st ! j)), snd (ctx st ! j))] = ctx st"
      by (intro list_update_beyond) simp
    then show ?thesis using Suc by (simp add: update_at_def globalScope_def)
  qed
qed

lemma findIndex_Some: "findIndex P xs = Some i \<Longrightarrow> i < length xs"
  by (induction xs arbitrary: i) (auto split: if_splits)

lemma set_children_children [simp]: "set_children (children s) s = s"
  by (cases s) (simp add: set_children_def)

lemma set_children_twice [simp]: "set_children cs (set_children cs' s) = set_children cs s"
  by (simp add: set_children_def)

lemma enterReferences_declared:
  assumes "enterReferences nd st = Inr st'"
  shows "declared (globalScope st') = declared (globalScope st)"
proof (cases "createsScope (ntype nd)")
  case True
  with assms obtain i where i: "findIndex (\<lambda>s. node s = nid nd) (children (cur st)) = Some i"
    and st': "st' = st\<lparr>cur := children (cur st) ! i,
                     ctx := (set_children (take i (children (cur st))) (cur st),
                             drop (Suc i) (children (cur st))) # ctx st\<rparr>"
    by (auto simp: enterReferences_def split: option.splits)
  from findIndex_Some[OF i] have
    "take i (children (cur st)) @ children (cur st) ! i # drop (Suc i) (children (cur st)) =
     children (cur st)"
    by (simp add: id_take_nth_drop[symmetric])
  then show ?thesis by (simp add: st' globalScope_def)
next
  case False
  show ?thesis
  proof (cases "ntype nd")
    case (IdentifierExpression n)
    show ?thesis
    proof (cases "lookupVariable n (chain st)")
      case None
      with assms False IdentifierExpression show ?thesis
        by (auto simp: enterReferences_def globalScope_def addName_def)
    next
      case (Some r)
      with assms False IdentifierExpression show ?thesis
        by (cases r) (auto simp: enterReferences_def update_at_declared)
    qed
  qed (use assms False in \<open>auto simp: enterReferences_def\<close>)
qed

lemma leave_globalScope: "globalScope (leave nd st) = globalScope st"
  by (cases "ctx st") (auto simp: leave_def globalScope_def)

lemma traverse_declared:
  "traverse enterReferences leave t st = Inr st' \<Longrightarrow>
   declared (globalScope st') = declared (globalScope st)"
  "traverse_list enterReferences leave ks st = Inr st' \<Longrightarrow>
   declared (globalScope st') = declared (globalScope st)"
proof (induction t and ks arbitrary: st st' and st st' rule: node_ids_nodes_ids.induct)
  case (1 i t ks)
  from "1.prems" obtain s1 s2 where
    e: "enterReferences (Node i t ks) st = Inr s1"
    and l: "traverse_list enterReferences leave ks s1 = Inr s2"
    and st': "st' = leave (Node i t ks) s2"
    by (auto split: sum.splits)
  from enterReferences_declared[OF e] "1.IH"[OF l] show ?case
    by (simp add: st' leave_globalScope)
next
  case 2
  then show ?case by simp
next
  case (3 k ks)
  from "3.prems" obtain s1 where
    a: "traverse enterReferences leave k st = Inr s1"
    and b: "traverse_list enterReferences leave ks s1 = Inr st'"
    by (auto split: sum.splits)
  from "3.IH"(1)[OF a] "3.IH"(2)[OF b] show ?case by simp
qed

lemma collectReferences_declared:
  "collectReferences ast st = Inr st' \<Longrightarrow> declared (globalScope st') = declared (globalScope st)"
  using traverse_declared(1)[of ast "st\<lparr>cur := globalScope st, ctx := []\<rparr>" st']
  by (simp add: collectReferences_def globalScope_def)


text \<open>
  Claim C3, amended.  For an identifier that no scope of the chain declares,
  the reference walk creates a new var-kind variable that holds the reference
  and is registered in no scope (the cursor and its ancestors are unchanged),
  and adds the name to the used names unless it satisfies the eligibility
  predicate; the name is still undeclared afterwards, so the next unresolved
  use of it creates a new variable again.  Over a whole reference walk no
  scope, the Global scope included, gains or loses a variable.
\<close>

theorem unresolved_identifier:
  "(lookupVariable n (chain st) = None \<longrightarrow>
      enterReferences (Node i (IdentifierExpression n) ks) st =
        Inr (st\<lparr>usedVariableNames :=
                   (if shouldRename n then usedVariableNames st
                    else insert n (usedVariableNames st)),
                 implicitGlobals := implicitGlobals st @
                   [\<lparr>name = n, kind = Var, declarations = [], references = [i]\<rparr>]\<rparr>) \<and>
      lookupVariable n
        (chain (st\<lparr>usedVariableNames :=
                   (if shouldRename n then usedVariableNames st
                    else insert n (usedVariableNames st)),
                 implicitGlobals := implicitGlobals st @
                   [\<lparr>name = n, kind = Var, declarations = [], references = [i]\<rparr>]\<rparr>)) = None) \<and>
   (collectReferences ast s = Inr s' \<longrightarrow>
      declared (globalScope s') = declared (globalScope s))"
  by (simp add: enterReferences_def createsScope_def addName_def newVariable_def chain_def
      collectReferences_declared)

theorem unresolved_identifier_witness:
  "lookupVariable ''x'' (chain (initial undeclared_uses)) = None \<and>
   enterReferences (Node 1 (IdentifierExpression ''x'') []) (initial undeclared_uses) =
     Inr ((initial undeclared_uses)\<lparr>usedVariableNames :=
             {''x'', ''if'', ''do'', ''in'', ''var'', ''let'', ''try'', ''for''},
           implicitGlobals :=
             [\<lparr>name = ''x'', kind = Var, declarations = [], references = [1]\<rparr>]\<rparr>) \<and>
   lookupVariable ''x''
     (chain ((initial undeclared_uses)\<lparr>usedVariableNames :=
             {''x'', ''if'', ''do'', ''in'', ''var'', ''let'', ''try'', ''for''},
           implicitGlobals :=
             [\<lparr>name = ''x'', kind = Var, declarations = [], references = [1]\<rparr>]\<rparr>)) = None \<and>
   collectReferences undeclared_uses (initial undeclared_uses) = Inr walked_undeclared \<and>
   declared (globalScope walked_undeclared) = declared (globalScope (initial undeclared_uses))"
proof -
  have a: "lookupVariable ''x'' (chain (initial undeclared_uses)) = None"
    by (simp add: initial_def chain_def)
  have b: "collectReferences undeclared_uses (initial undeclared_uses) = Inr walked_undeclared"
    by (simp add: undeclared_uses_def walked_undeclared_def walk_defs)
  from unresolved_identifier[of "''x''" "initial undeclared_uses" 1 "[]" undeclared_uses
      "initial undeclared_uses" walked_undeclared] a b
  show ?thesis by (simp add: shouldRename_def initial_def)
qed

text \<open>
  Claim C3 as stated fails: after both walks over \<^verbatim>\<open>x; x;\<close> the Global scope
  has no variable, and two variables were created, one per use.
\<close>

theorem undeclared_uses_counterexample:
  "then_do (collectDeclarations undeclared_uses (initial undeclared_uses))
     (collectReferences undeclared_uses) =
     Inr \<lparr>cur = Scope 0 Global [] [], ctx = [],
            usedVariableNames = {''x'', ''if'', ''do'', ''in'', ''var'', ''let'', ''try'', ''for''},
            implicitGlobals =
              [\<lparr>name = ''x'', kind = Var, declarations = [], references = [1]\<rparr>,
               \<lparr>name = ''x'', kind = Var, declarations = [], references = [2]\<rparr>]\<rparr>"
  by (simp add: undeclared_uses_def walk_defs)

end
